theory Spec2Isabelle
  imports Complex_Main "HOL-Library.Log_Nat"
begin

section \<open>Text and bytes\<close>

text \<open>
  Python \<^verbatim>\<open>str\<close> and \<^verbatim>\<open>bytes\<close> values are both modelled as lists of 8-bit
  characters. For \<^verbatim>\<open>str\<close> a character stands for the code point of the same number
  (U+0000 to U+00FF). Python's \<^verbatim>\<open>float\<close>, \<^verbatim>\<open>int\<close>, \<^verbatim>\<open>\d\<close> and
  \<^verbatim>\<open>str.strip\<close> also know decimal digits and spaces above U+00FF; such code points
  cannot be written in this model.
\<close>

type_synonym bytes = "char list"

definition isdigit :: "char \<Rightarrow> bool" where
  "isdigit c = (c \<in> set ''0123456789'')"

definition digit_val :: "char \<Rightarrow> nat" where
  "digit_val c = length (takeWhile (\<lambda>d. d \<noteq> c) ''0123456789'')"

definition decimal_value :: "string \<Rightarrow> int" where
  "decimal_value ds = foldl (\<lambda>acc c. 10 * acc + int (digit_val c)) 0 ds"

text \<open>The three notions of white space: \<^verbatim>\<open>bytes.isspace\<close> (also what \<^verbatim>\<open>int\<close>
  strips), \<^verbatim>\<open>str.isspace\<close> (what \<^verbatim>\<open>str.strip\<close> strips) and what \<^verbatim>\<open>float\<close>
  strips.\<close>

definition bytes_isspace :: "char \<Rightarrow> bool" where
  "bytes_isspace c = (c \<in> set [CHR 0x09, CHR 0x0A, CHR 0x0B, CHR 0x0C, CHR 0x0D, CHR 0x20])"

definition str_isspace :: "char \<Rightarrow> bool" where
  "str_isspace c =
     (bytes_isspace c \<or> c \<in> set [CHR 0x1C, CHR 0x1D, CHR 0x1E, CHR 0x1F, CHR 0x85, CHR 0xA0])"

definition float_isspace :: "char \<Rightarrow> bool" where
  "float_isspace c = (bytes_isspace c \<or> c \<in> set [CHR 0x85, CHR 0xA0])"

definition strip_with :: "(char \<Rightarrow> bool) \<Rightarrow> string \<Rightarrow> string" where
  "strip_with sp s = rev (dropWhile sp (rev (dropWhile sp s)))"

definition str_strip :: "string \<Rightarrow> string" where
  "str_strip = strip_with str_isspace"

text \<open>A \<^verbatim>\<open>digitpart\<close> of Python's numeric grammar: digits, with single underscores
  allowed between two digits. The result is the digits without the underscores.\<close>

fun digitpart :: "string \<Rightarrow> string option" where
  "digitpart [] = None"
| "digitpart [c] = (if isdigit c then Some [c] else None)"
| "digitpart (c # d # ds) =
     (if \<not> isdigit c then None
      else if d = CHR ''_'' then map_option (Cons c) (digitpart ds)
      else map_option (Cons c) (digitpart (d # ds)))"

text \<open>\<^verbatim>\<open>int(b)\<close> for a bytes object, base 10: surrounding white space, an optional
  sign, a digitpart. \<open>None\<close> is the \<^verbatim>\<open>ValueError\<close>.\<close>

definition py_int :: "bytes \<Rightarrow> int option" where
  "py_int b =
     (case strip_with bytes_isspace b of
        [] \<Rightarrow> None
      | c # cs \<Rightarrow>
          if c = CHR ''-'' then map_option (\<lambda>ds. - decimal_value ds) (digitpart cs)
          else if c = CHR ''+'' then map_option decimal_value (digitpart cs)
          else map_option decimal_value (digitpart (c # cs)))"

section \<open>The block reader (\<^verbatim>\<open>_scpi_recv_block\<close> of Pr100.py)\<close>

text \<open>
  The reader works on \<^verbatim>\<open>socket.makefile("rwb", buffering=0)\<close>, an unbuffered file:
  \<^verbatim>\<open>read(n)\<close> is one \<^verbatim>\<open>recv\<close>, which returns at most \<open>n\<close> bytes of the segment
  that has arrived and \<^verbatim>\<open>b''\<close> once the peer has closed; \<^verbatim>\<open>read(0)\<close> returns
  \<^verbatim>\<open>b''\<close> and consumes nothing. The connection is the list of segments still to be
  delivered; the empty list is the closed connection. A connection that stalls until the
  socket's timeout is not part of this model.
\<close>

fun sock_read :: "nat \<Rightarrow> bytes list \<Rightarrow> bytes \<times> bytes list" where
  "sock_read n [] = ([], [])"
| "sock_read n (seg # segs) =
     (if n = 0 then ([], seg # segs)
      else if seg = [] then sock_read n segs
      else (take n seg, if length seg \<le> n then segs else drop n seg # segs))"

text \<open>\<^verbatim>\<open>readline()\<close>: the bytes up to and with the first newline, or all that is left
  when the peer closes before one.\<close>

fun sock_readline :: "bytes list \<Rightarrow> bytes \<times> bytes list" where
  "sock_readline [] = ([], [])"
| "sock_readline (seg # segs) =
     (if CHR 0x0A \<in> set seg
      then (takeWhile (\<lambda>c. c \<noteq> CHR 0x0A) seg @ [CHR 0x0A],
            tl (dropWhile (\<lambda>c. c \<noteq> CHR 0x0A) seg) # segs)
      else (case sock_readline segs of (l, r) \<Rightarrow> (seg @ l, r)))"

text \<open>The exceptions of the reader: the two \<^verbatim>\<open>RuntimeError\<close>s it raises itself (the
  first with the offending line) and the \<^verbatim>\<open>ValueError\<close> of \<^verbatim>\<open>int\<close>.\<close>

datatype block_error =
    NotBlockData bytes
  | ConnectionClosed
  | IntValueError

text \<open>The loop \<^verbatim>\<open>while len(data) < blen\<close>: each pass asks for what is missing and
  stops with an error on an empty chunk.\<close>

function recv_payload :: "int \<Rightarrow> bytes \<Rightarrow> bytes list \<Rightarrow> (block_error + bytes) \<times> bytes list" where
  "recv_payload blen data s =
     (if int (length data) < blen
      then (let r = sock_read (nat (blen - int (length data))) s
            in if fst r = [] then (Inl ConnectionClosed, snd r)
               else recv_payload blen (data @ fst r) (snd r))
      else (Inr data, s))"
  by pat_completeness auto
termination
  by (relation "measure (\<lambda>(blen, data, s). nat (blen - int (length data)))") auto

declare recv_payload.simps [simp del]

definition scpi_recv_block :: "bytes list \<Rightarrow> (block_error + bytes) \<times> bytes list" where
  "scpi_recv_block s =
     (case sock_read 1 s of (first, s1) \<Rightarrow>
        if first \<noteq> ''#''
        then (case sock_readline s1 of (l, s2) \<Rightarrow> (Inl (NotBlockData (first @ l)), s2))
        else (case sock_read 1 s1 of (b1, s2) \<Rightarrow>
          (case py_int b1 of
             None \<Rightarrow> (Inl IntValueError, s2)
           | Some ndigits \<Rightarrow>
               (case sock_read (nat ndigits) s2 of (b2, s3) \<Rightarrow>
                  (case py_int b2 of
                     None \<Rightarrow> (Inl IntValueError, s3)
                   | Some blen \<Rightarrow> recv_payload blen [] s3)))))"

section \<open>Floating point numbers\<close>

text \<open>
  A Python \<^verbatim>\<open>float\<close> is an IEEE 754 binary64 number: a finite number (a rational with
  a 53-bit significand), minus zero, an infinity or a NaN. A finite result of an operation
  is the exact result rounded to the nearest binary64 number, ties to the even significand;
  it overflows to an infinity when the rounded magnitude reaches \<open>2 ^ 1024\<close>.
\<close>

datatype pyfloat = Fin rat | NegZero | PInf | NInf | NaN

text \<open>Rounding to the nearest integer, ties to the even one: \<open>tie_to_even x f\<close> rounds
  \<open>x\<close>, given its floor \<open>f\<close>.\<close>

definition tie_to_even :: "rat \<Rightarrow> int \<Rightarrow> int" where
  "tie_to_even x f =
     (if x - of_int f < 1 / 2 then f
      else if 1 / 2 < x - of_int f then f + 1
      else if even f then f else f + 1)"

definition round_half_even :: "rat \<Rightarrow> int" where
  "round_half_even x = tie_to_even x \<lfloor>x\<rfloor>"

text \<open>\<open>ilog2 q\<close> is \<open>\<lfloor>log\<^sub>2 q\<rfloor>\<close> for a positive \<open>q\<close>.\<close>

definition ilog2 :: "rat \<Rightarrow> int" where
  "ilog2 q =
     (if 1 \<le> q then bitlen \<lfloor>q\<rfloor> - 1 else - bitlen (\<lceil>1 / q\<rceil> - 1))"

text \<open>The spacing of the binary64 numbers around a positive \<open>q\<close>: 52 binary places below
  its leading bit, and \<open>2\<^sup>-\<^sup>1\<^sup>0\<^sup>7\<^sup>4\<close> in the subnormal range.\<close>

definition b64_quantum :: "rat \<Rightarrow> rat" where
  "b64_quantum q = 2 powi (max (ilog2 q) (- 1022) - 52)"

definition round_to_multiple :: "rat \<Rightarrow> rat \<Rightarrow> rat" where
  "round_to_multiple u q = of_int (round_half_even (q / u)) * u"

text \<open>The binary64 number nearest to a magnitude \<open>q \<ge> 0\<close>, with no bound on the
  exponent.\<close>

definition b64_round :: "rat \<Rightarrow> rat" where
  "b64_round q = (if q = 0 then 0 else round_to_multiple (b64_quantum q) q)"

definition b64_overflow :: rat where
  "b64_overflow = 2 ^ 1024"

text \<open>The float of a sign and a rounded magnitude: an infinity on overflow, a signed
  zero on underflow.\<close>

definition float_of_magnitude :: "bool \<Rightarrow> rat \<Rightarrow> pyfloat" where
  "float_of_magnitude neg m =
     (if b64_overflow \<le> m then (if neg then NInf else PInf)
      else if m = 0 then (if neg then NegZero else Fin 0)
      else Fin (if neg then - m else m))"

definition b64 :: "rat \<Rightarrow> pyfloat" where
  "b64 q = float_of_magnitude (q < 0) (b64_round \<bar>q\<bar>)"

fun fneg :: "pyfloat \<Rightarrow> pyfloat" where
  "fneg (Fin q) = (if q = 0 then NegZero else Fin (- q))"
| "fneg NegZero = Fin 0"
| "fneg PInf = NInf"
| "fneg NInf = PInf"
| "fneg NaN = NaN"

fun fadd :: "pyfloat \<Rightarrow> pyfloat \<Rightarrow> pyfloat" where
  "fadd NaN y = NaN"
| "fadd x NaN = NaN"
| "fadd PInf NInf = NaN"
| "fadd NInf PInf = NaN"
| "fadd PInf y = PInf"
| "fadd x PInf = PInf"
| "fadd NInf y = NInf"
| "fadd x NInf = NInf"
| "fadd NegZero NegZero = NegZero"
| "fadd NegZero (Fin b) = Fin b"
| "fadd (Fin a) NegZero = Fin a"
| "fadd (Fin a) (Fin b) = b64 (a + b)"

definition fsub :: "pyfloat \<Rightarrow> pyfloat \<Rightarrow> pyfloat" where
  "fsub x y = fadd x (fneg y)"

text \<open>Division by a positive finite constant (the source divides by \<^verbatim>\<open>60.0\<close> and
  \<^verbatim>\<open>3600.0\<close> only).\<close>

fun fdiv :: "pyfloat \<Rightarrow> rat \<Rightarrow> pyfloat" where
  "fdiv (Fin a) c = b64 (a / c)"
| "fdiv NegZero c = NegZero"
| "fdiv PInf c = PInf"
| "fdiv NInf c = NInf"
| "fdiv NaN c = NaN"

text \<open>\<^verbatim>\<open>math.isfinite(v)\<close>, \<^verbatim>\<open>v > 0\<close> and \<^verbatim>\<open>v <= 0\<close>.\<close>

fun isfinite :: "pyfloat \<Rightarrow> bool" where
  "isfinite (Fin q) = True"
| "isfinite NegZero = True"
| "isfinite v = False"

fun float_gt0 :: "pyfloat \<Rightarrow> bool" where
  "float_gt0 (Fin q) = (0 < q)"
| "float_gt0 PInf = True"
| "float_gt0 v = False"

fun float_le0 :: "pyfloat \<Rightarrow> bool" where
  "float_le0 (Fin q) = (q \<le> 0)"
| "float_le0 NegZero = True"
| "float_le0 NInf = True"
| "float_le0 v = False"

text \<open>The number a finite float stands for.\<close>

fun float_val :: "pyfloat \<Rightarrow> rat" where
  "float_val (Fin q) = q"
| "float_val v = 0"

subsection \<open>\<^verbatim>\<open>float(s)\<close> for a string\<close>

text \<open>
  The grammar of the Python reference: white space around, an optional sign, then
  \<^verbatim>\<open>inf\<close>, \<^verbatim>\<open>infinity\<close> or \<^verbatim>\<open>nan\<close> in any letter case, or a decimal number
  (\<^verbatim>\<open>[digitpart] "." digitpart | digitpart ["."]\<close>) with an optional exponent
  (\<^verbatim>\<open>("e" | "E") [sign] digitpart\<close>). The conversion is correctly rounded. \<open>None\<close> is
  the \<^verbatim>\<open>ValueError\<close>.
\<close>

definition ascii_lower :: "char \<Rightarrow> char" where
  "ascii_lower c =
     (case map_of (zip ''ABCDEFGHIJKLMNOPQRSTUVWXYZ'' ''abcdefghijklmnopqrstuvwxyz'') c of
        None \<Rightarrow> c | Some l \<Rightarrow> l)"

text \<open>The mantissa: its digits without the point, and the number of digits after the
  point.\<close>

definition float_mantissa :: "string \<Rightarrow> (string \<times> nat) option" where
  "float_mantissa m =
     (let ip = takeWhile (\<lambda>c. c \<noteq> CHR ''.'') m; r = dropWhile (\<lambda>c. c \<noteq> CHR ''.'') m
      in case r of
           [] \<Rightarrow> map_option (\<lambda>ds. (ds, 0)) (digitpart ip)
         | _ # fp \<Rightarrow>
             if fp = [] then map_option (\<lambda>ds. (ds, 0)) (digitpart ip)
             else (case digitpart fp of
                     None \<Rightarrow> None
                   | Some fds \<Rightarrow>
                       if ip = [] then Some (fds, length fds)
                       else map_option (\<lambda>ds. (ds @ fds, length fds)) (digitpart ip)))"

definition float_exponent :: "string \<Rightarrow> int option" where
  "float_exponent e =
     (case e of
        [] \<Rightarrow> None
      | c # cs \<Rightarrow>
          if c = CHR ''-'' then map_option (\<lambda>ds. - decimal_value ds) (digitpart cs)
          else if c = CHR ''+'' then map_option decimal_value (digitpart cs)
          else map_option decimal_value (digitpart (c # cs)))"

definition float_unsigned :: "string \<Rightarrow> pyfloat option" where
  "float_unsigned body =
     (if map ascii_lower body \<in> set [''inf'', ''infinity''] then Some PInf
      else if map ascii_lower body = ''nan'' then Some NaN
      else
        (let m = takeWhile (\<lambda>c. c \<noteq> CHR ''e'' \<and> c \<noteq> CHR ''E'') body;
             r = dropWhile (\<lambda>c. c \<noteq> CHR ''e'' \<and> c \<noteq> CHR ''E'') body
         in case float_mantissa m of
              None \<Rightarrow> None
            | Some (ds, nfrac) \<Rightarrow>
                (case r of
                   [] \<Rightarrow> Some (b64 (of_int (decimal_value ds) / 10 ^ nfrac))
                 | _ # e \<Rightarrow>
                     (case float_exponent e of
                        None \<Rightarrow> None
                      | Some x \<Rightarrow> Some (b64 (of_int (decimal_value ds) * 10 powi (x - int nfrac)))))))"

definition py_float :: "string \<Rightarrow> pyfloat option" where
  "py_float s =
     (case strip_with float_isspace s of
        [] \<Rightarrow> None
      | c # cs \<Rightarrow>
          if c = CHR ''-'' then map_option fneg (float_unsigned cs)
          else if c = CHR ''+'' then float_unsigned cs
          else float_unsigned (c # cs))"

subsection \<open>Text of a float\<close>

definition digit_char :: "nat \<Rightarrow> char" where
  "digit_char d = ''0123456789'' ! (d mod 10)"

text \<open>The decimal digits of a natural number (given as an \<open>int\<close>), and its last \<open>k\<close>
  digits with leading zeros.\<close>

function int_digits :: "int \<Rightarrow> string" where
  "int_digits n =
     (if n < 10 then [digit_char (nat n)] else int_digits (n div 10) @ [digit_char (nat (n mod 10))])"
  by pat_completeness auto
termination
  by (relation "measure nat") auto

declare int_digits.simps [simp del]

fun fixed_digits :: "nat \<Rightarrow> int \<Rightarrow> string" where
  "fixed_digits 0 n = []"
| "fixed_digits (Suc k) n = fixed_digits k (n div 10) @ [digit_char (nat (n mod 10))]"

text \<open>
  The format specification \<^verbatim>\<open>.kf\<close> (the source uses \<^verbatim>\<open>.1f\<close>, \<^verbatim>\<open>.2f\<close> and
  \<^verbatim>\<open>.6f\<close>): the exact value of the float, rounded to \<open>k\<close> decimals, ties to even; the
  sign is that of the float, also when the digits are all zero.
\<close>

definition fixed_point :: "bool \<Rightarrow> nat \<Rightarrow> int \<Rightarrow> string" where
  "fixed_point neg k n =
     (if neg then ''-'' else []) @ int_digits (n div 10 ^ k) @ ''.'' @ fixed_digits k n"

definition format_f :: "nat \<Rightarrow> pyfloat \<Rightarrow> string" where
  "format_f k v =
     (case v of
        Fin q \<Rightarrow> fixed_point (q < 0) k (round_half_even (\<bar>q\<bar> * 10 ^ k))
      | NegZero \<Rightarrow> ''-0.'' @ replicate k (CHR ''0'')
      | PInf \<Rightarrow> ''inf''
      | NInf \<Rightarrow> ''-inf''
      | NaN \<Rightarrow> ''nan'')"

text \<open>
  \<^verbatim>\<open>str(v)\<close>, which is what an f-string field without a format specification writes:
  the shortest digit string that reads back as the same float (the nearest to the float
  among the shortest), in positional notation when the decimal point falls within
  \<^verbatim>\<open>-4 < decpt <= 16\<close> and in exponent notation otherwise.
\<close>

text \<open>\<open>ilog10 m\<close> is \<open>\<lfloor>log\<^sub>1\<^sub>0 m\<rfloor>\<close> for a positive \<open>m\<close>; the guess from the binary
  logarithm is off by one at most.\<close>

definition ilog10_near :: "rat \<Rightarrow> int \<Rightarrow> int" where
  "ilog10_near m g = (if m < 10 powi g then g - 1 else if 10 powi (g + 1) \<le> m then g + 1 else g)"

definition ilog10 :: "rat \<Rightarrow> int" where
  "ilog10 m = ilog10_near m ((ilog2 m * 30103) div 100000)"

text \<open>The candidates for a positive float \<open>m\<close> with the last digit at \<open>10\<^sup>x\<close>: the two
  decimals around \<open>m\<close> that read back as \<open>m\<close>, the nearer one first.\<close>

definition repr_candidates :: "rat \<Rightarrow> int \<Rightarrow> (int \<times> int) list" where
  "repr_candidates m x =
     (let scaled = m / 10 powi x;
          lo = \<lfloor>scaled\<rfloor>;
          near = round_half_even scaled;
          far = (if near = lo then lo + 1 else lo)
      in filter (\<lambda>(c, x). b64 (of_int c * 10 powi x) = Fin m) [(near, x), (far, x)])"

text \<open>The search for the shortest digit string, from \<open>n\<close> digits on; 17 digits always
  read back.\<close>

function repr_search :: "nat \<Rightarrow> rat \<Rightarrow> int \<Rightarrow> (int \<times> int) option" where
  "repr_search n m e10 =
     (if 17 < n then None
      else (case repr_candidates m (e10 - int n + 1) of
              [] \<Rightarrow> repr_search (Suc n) m e10
            | c # _ \<Rightarrow> Some c))"
  by pat_completeness auto
termination
  by (relation "measure (\<lambda>(n, m, e10). 18 - n)") auto

declare repr_search.simps [simp del]

text \<open>The significant digits (no trailing zeros) and the position of the decimal point
  (the value is \<open>0.d\<^sub>1d\<^sub>2\<dots> \<times> 10\<^sup>d\<^sup>e\<^sup>c\<^sup>p\<^sup>t\<close>).\<close>

definition repr_digits :: "rat \<Rightarrow> string \<times> int" where
  "repr_digits m =
     (case repr_search 1 m (ilog10 m) of
        None \<Rightarrow> ([], 0)
      | Some (c, x) \<Rightarrow>
          (rev (dropWhile (\<lambda>d. d = CHR ''0'') (rev (int_digits c))),
           int (length (int_digits c)) + x))"

fun repr_layout :: "bool \<Rightarrow> string \<times> int \<Rightarrow> string" where
  "repr_layout neg (ds, decpt) =
     (let sgn = (if neg then ''-'' else []);
          n = int (length ds)
      in if decpt \<le> - 4 \<or> 16 < decpt then
           sgn @ take 1 ds @ (if 1 < n then ''.'' @ drop 1 ds else [])
             @ ''e'' @ (if decpt - 1 < 0 then ''-'' else ''+'')
             @ (if \<bar>decpt - 1\<bar> < 10 then ''0'' else []) @ int_digits \<bar>decpt - 1\<bar>
         else if decpt \<le> 0 then sgn @ ''0.'' @ replicate (nat (- decpt)) (CHR ''0'') @ ds
         else if n \<le> decpt then sgn @ ds @ replicate (nat (decpt - n)) (CHR ''0'') @ ''.0''
         else sgn @ take (nat decpt) ds @ ''.'' @ drop (nat decpt) ds)"

definition repr_finite :: "rat \<Rightarrow> string" where
  "repr_finite q = (if q = 0 then ''0.0'' else repr_layout (q < 0) (repr_digits \<bar>q\<bar>))"

definition float_str :: "pyfloat \<Rightarrow> string" where
  "float_str v =
     (case v of
        Fin q \<Rightarrow> repr_finite q
      | NegZero \<Rightarrow> ''-0.0''
      | PInf \<Rightarrow> ''inf''
      | NInf \<Rightarrow> ''-inf''
      | NaN \<Rightarrow> ''nan'')"

section \<open>Response parsers (Pr100.py and medicion360.py)\<close>

text \<open>\<^verbatim>\<open>dbuv_to_dbm\<close>, \<^verbatim>\<open>extraer_primer_float\<close> and \<^verbatim>\<open>parse_gps_data\<close> have the same
  text in both files.\<close>

definition dbuv_to_dbm :: "pyfloat \<Rightarrow> pyfloat" where
  "dbuv_to_dbm dbuv = fsub dbuv (Fin 107)"

text \<open>
  \<^verbatim>\<open>re.search(r'(-?\d+(?:\.\d+)?)', s)\<close>: the leftmost match starts at the first digit,
  or at a minus sign that stands right before it; it takes all the digits that follow
  and then, if a point and a digit follow, the point and all the digits after it.
  \<open>match_number\<close> is the match without the sign, for a text that starts with a digit.
\<close>

definition match_number :: "string \<Rightarrow> string" where
  "match_number s =
     (let ip = takeWhile isdigit s; r = dropWhile isdigit s
      in case r of
           c # d # ds \<Rightarrow>
             if c = CHR ''.'' \<and> isdigit d then ip @ c # takeWhile isdigit (d # ds) else ip
         | _ \<Rightarrow> ip)"

fun re_search_number :: "string \<Rightarrow> string option" where
  "re_search_number [] = None"
| "re_search_number (c # cs) =
     (if isdigit c then Some (match_number (c # cs))
      else if c = CHR ''-'' \<and> (case cs of [] \<Rightarrow> False | d # _ \<Rightarrow> isdigit d)
      then Some (c # match_number cs)
      else re_search_number cs)"

text \<open>The result \<open>None\<close> is Python's \<^verbatim>\<open>None\<close>. The \<^verbatim>\<open>float\<close> of a match never raises
  (lemma \<open>py_float_match\<close> below), so the last case is never taken.\<close>

definition extraer_primer_float :: "string \<Rightarrow> pyfloat option" where
  "extraer_primer_float s =
     (if s = [] then None
      else (case re_search_number s of
              None \<Rightarrow> None
            | Some g \<Rightarrow> py_float g))"

text \<open>\<^verbatim>\<open>s.split(",")\<close> and the first index of an element that satisfies a test
  (\<^verbatim>\<open>next((i for i, p in enumerate(parts) if ...), None)\<close>).\<close>

definition split_on :: "char \<Rightarrow> string \<Rightarrow> string list" where
  "split_on sep s =
     foldr (\<lambda>c acc. if c = sep then [] # acc else (c # hd acc) # tl acc) s [[]]"

fun find_first :: "('a \<Rightarrow> bool) \<Rightarrow> 'a list \<Rightarrow> nat option" where
  "find_first P [] = None"
| "find_first P (x # xs) = (if P x then Some 0 else map_option Suc (find_first P xs))"

text \<open>
  \<^verbatim>\<open>parse_gps_data\<close>: the text is cut at the commas and the pieces are stripped
  (\<open>parts\<close>); \<open>gps_from_parts\<close> is the rest of the function. Every \<open>None\<close> of a
  \<^verbatim>\<open>float\<close> is the \<^verbatim>\<open>ValueError\<close> that the \<^verbatim>\<open>except Exception\<close> of the function
  turns into \<^verbatim>\<open>(None, None)\<close>.
\<close>

definition dms_to_degrees :: "pyfloat \<Rightarrow> pyfloat \<Rightarrow> pyfloat \<Rightarrow> pyfloat" where
  "dms_to_degrees d m s = fadd (fadd d (fdiv m 60)) (fdiv s 3600)"

definition gps_from_parts :: "string list \<Rightarrow> pyfloat option \<times> pyfloat option" where
  "gps_from_parts parts =
     (case find_first (\<lambda>p. p \<in> set [''N'', ''S'']) parts of
        None \<Rightarrow> (None, None)
      | Some i_ns \<Rightarrow>
          if length parts \<le> i_ns + 3 then (None, None)
          else
            (case (py_float (parts ! (i_ns + 1)), py_float (parts ! (i_ns + 2)),
                   py_float (parts ! (i_ns + 3))) of
               (Some lat_d, Some lat_m, Some lat_s) \<Rightarrow>
                 (case map_option (\<lambda>j. j + (i_ns + 4))
                         (find_first (\<lambda>p. p \<in> set [''E'', ''W'']) (drop (i_ns + 4) parts)) of
                    None \<Rightarrow> (None, None)
                  | Some i_ew \<Rightarrow>
                      if length parts \<le> i_ew + 3 then (None, None)
                      else
                        (case (py_float (parts ! (i_ew + 1)), py_float (parts ! (i_ew + 2)),
                               py_float (parts ! (i_ew + 3))) of
                           (Some lon_d, Some lon_m, Some lon_s) \<Rightarrow>
                             (let lat = dms_to_degrees lat_d lat_m lat_s;
                                  lon = dms_to_degrees lon_d lon_m lon_s
                              in (Some (if parts ! i_ns = ''S'' then fneg lat else lat),
                                  Some (if parts ! i_ew = ''W'' then fneg lon else lon)))
                         | _ \<Rightarrow> (None, None)))
             | _ \<Rightarrow> (None, None)))"

definition parse_gps_data :: "string \<Rightarrow> pyfloat option \<times> pyfloat option" where
  "parse_gps_data s =
     (if s = [] then (None, None)
      else gps_from_parts (map str_strip (split_on (CHR '','') s)))"

section \<open>The cadence (\<^verbatim>\<open>PeriodProtocol.datagram_received\<close> of Pr100.py)\<close>

text \<open>
  The texts of this development are sequences of the code points up to U+00FF. For a
  payload that is the UTF-8 encoding of such a text, \<open>decode_utf8\<close> gives the text: ASCII
  bytes stand for themselves, and the two-byte sequences that start with \<^verbatim>\<open>0xC2\<close> or
  \<^verbatim>\<open>0xC3\<close> give U+0080 to U+00FF. For every other payload (an ill-formed one, or one
  with a code point above U+00FF) it gives \<open>None\<close>.
\<close>

fun decode_utf8 :: "bytes \<Rightarrow> string option" where
  "decode_utf8 [] = Some []"
| "decode_utf8 [b] = (if (of_char b :: nat) < 0x80 then Some [b] else None)"
| "decode_utf8 (b # c # bs) =
     (if (of_char b :: nat) < 0x80 then map_option (Cons b) (decode_utf8 (c # bs))
      else if b \<in> set [CHR 0xC2, CHR 0xC3] \<and> 0x80 \<le> (of_char c :: nat) \<and> (of_char c :: nat) < 0xC0
      then map_option (Cons (char_of ((of_char b - 0xC2) * 0x40 + of_char c :: nat))) (decode_utf8 bs)
      else None)"

text \<open>
  The outcome of \<^verbatim>\<open>float(data.decode('utf-8').strip())\<close>: \<open>None\<close> when it raises
  (\<^verbatim>\<open>UnicodeDecodeError\<close> or \<^verbatim>\<open>ValueError\<close>), the float otherwise. For a payload
  that \<open>decode_utf8\<close> does not cover the outcome is not computed here but taken from the
  parameter \<open>wide\<close>, of which nothing is assumed: Python raises on an ill-formed payload, and
  reads the decimal digits and the white space of all scripts in a well-formed one.
\<close>

definition payload_float :: "(bytes \<Rightarrow> pyfloat option) \<Rightarrow> bytes \<Rightarrow> pyfloat option" where
  "payload_float wide data =
     (case decode_utf8 data of
        None \<Rightarrow> wide data
      | Some txt \<Rightarrow> py_float (str_strip txt))"

text \<open>The handler reads the global \<^verbatim>\<open>PERIODO_S\<close> and may replace it: the function takes
  the old value and returns the new one. Every exception is caught and only logged.\<close>

definition datagram_received :: "(bytes \<Rightarrow> pyfloat option) \<Rightarrow> pyfloat \<Rightarrow> bytes \<Rightarrow> pyfloat" where
  "datagram_received wide periodo_s data =
     (case payload_float wide data of
        None \<Rightarrow> periodo_s
      | Some v \<Rightarrow> if float_gt0 v then v else periodo_s)"

text \<open>The start value, from the environment variable \<^verbatim>\<open>SAMPLE_PERIOD\<close> (the default
  \<^verbatim>\<open>"5"\<close> when it is not set).\<close>

definition initial_periodo :: "string option \<Rightarrow> pyfloat" where
  "initial_periodo env =
     (case py_float (case env of None \<Rightarrow> ''5'' | Some s \<Rightarrow> s) of
        None \<Rightarrow> Fin 5
      | Some v \<Rightarrow> if float_le0 v then Fin 5 else v)"

section \<open>The sampling engine\<close>

text \<open>
  What the engine does depends on its environment. A query
  (\<^verbatim>\<open>await scpi_query_line(...)\<close>) either raises or returns the decoded, stripped line;
  each \<^verbatim>\<open>try\<close> around one replaces a raised exception by the empty reply. The log file
  is either absent or holds a text; opening it in append mode creates it when it is
  absent. An outside actor may remove the file at any moment.
\<close>

datatype query_outcome = Raised | Reply string

definition reply_text :: "query_outcome \<Rightarrow> string" where
  "reply_text q = (case q of Raised \<Rightarrow> [] | Reply r \<Rightarrow> r)"

type_synonym log_file = "string option"

definition append_text :: "log_file \<Rightarrow> string \<Rightarrow> log_file" where
  "append_text f txt = Some ((case f of None \<Rightarrow> [] | Some old \<Rightarrow> old) @ txt)"

text \<open>How a run stands when its schedule of events ends: it has returned, it has died
  with an exception, or its loop is still going.\<close>

datatype run_status = Finished | Crashed | Running

subsection \<open>Continuous mode (\<^verbatim>\<open>main\<close> of Pr100.py)\<close>

record datetime =
  dt_year :: nat
  dt_month :: nat
  dt_day :: nat
  dt_hour :: nat
  dt_minute :: nat
  dt_second :: nat

text \<open>\<^verbatim>\<open>strftime("%Y-%m-%d")\<close> and \<^verbatim>\<open>strftime("%H:%M:%S")\<close>.\<close>

definition strftime_date :: "datetime \<Rightarrow> string" where
  "strftime_date now =
     fixed_digits 4 (int (dt_year now)) @ ''-'' @ fixed_digits 2 (int (dt_month now)) @ ''-''
       @ fixed_digits 2 (int (dt_day now))"

definition strftime_time :: "datetime \<Rightarrow> string" where
  "strftime_time now =
     fixed_digits 2 (int (dt_hour now)) @ '':'' @ fixed_digits 2 (int (dt_minute now)) @ '':''
       @ fixed_digits 2 (int (dt_second now))"

text \<open>
  The events of one pass of the loop: the clock, the three replies, whether the file is
  removed during the pass (after the test \<^verbatim>\<open>OUT_PATH.exists()\<close> and before the append),
  whether the append to the log goes through (the source catches its exception and logs
  it), and whether the capture with its fallback card and the frame are rendered without
  an exception (the source has no handler for those inside the loop).
\<close>

record cycle_env =
  c_now :: datetime
  c_measure :: query_outcome
  c_gps :: query_outcome
  c_compass :: query_outcome
  c_unlinked :: bool
  c_append_ok :: bool
  c_render_ok :: bool

definition sample_line :: "cycle_env \<Rightarrow> string" where
  "sample_line e =
     (let fecha = strftime_date (c_now e);
          hora = strftime_time (c_now e);
          dbuv = extraer_primer_float (reply_text (c_measure e));
          dbm = (case dbuv of Some v \<Rightarrow> dbuv_to_dbm v | None \<Rightarrow> NaN);
          (lat, lon) = parse_gps_data (reply_text (c_gps e));
          az = extraer_primer_float (reply_text (c_compass e));
          az_txt = (case az of
                      Some a \<Rightarrow> if isfinite a then format_f 1 a else ''no directivo''
                    | None \<Rightarrow> ''no directivo'');
          lat_txt = (case lat of Some l \<Rightarrow> if isfinite l then format_f 6 l else [] | None \<Rightarrow> []);
          lon_txt = (case lon of Some l \<Rightarrow> if isfinite l then format_f 6 l else [] | None \<Rightarrow> [])
      in fecha @ '','' @ hora @ '','' @ float_str dbm @ '','' @ az_txt @ '','' @ lat_txt @ '',''
           @ lon_txt @ [CHR 0x0A])"

datatype cycle_result = Completed | Escaped

definition pr100_cycle :: "cycle_env \<Rightarrow> log_file \<Rightarrow> log_file \<times> cycle_result" where
  "pr100_cycle e f =
     (let line = sample_line e;
          f0 = (if c_unlinked e then None else f);
          f' = (if c_append_ok e then append_text f0 line else f0)
      in (f', if c_render_ok e then Completed else Escaped))"

text \<open>One pass of \<^verbatim>\<open>while not stop_ev.is_set()\<close>: the stop flag, whether the file has
  been removed between the append of the pass before and the test
  \<^verbatim>\<open>OUT_PATH.exists()\<close> of this one, and the events of the cycle. An exception that
  escapes the cycle is caught by the handler around the loop, and \<^verbatim>\<open>main\<close> returns.\<close>

record pr100_tick =
  p_stop :: bool
  p_removed :: bool
  p_env :: cycle_env

fun pr100_loop :: "pr100_tick list \<Rightarrow> log_file \<Rightarrow> log_file \<times> run_status" where
  "pr100_loop [] f = (f, Running)"
| "pr100_loop (t # ts) f =
     (if p_stop t then (f, Finished)
      else (let f1 = (if p_removed t then None else f)
            in if f1 = None then (f1, Finished)
               else (case pr100_cycle (p_env t) f1 of
                       (f2, Completed) \<Rightarrow> pr100_loop ts f2
                     | (f2, Escaped) \<Rightarrow> (f2, Finished))))"


subsection \<open>Sweep mode (\<^verbatim>\<open>main\<close> of medicion360.py)\<close>

text \<open>One pass of the wait for a position fix: the stop flag, whether the file has been
  removed before the test \<^verbatim>\<open>OUT_PATH.exists()\<close> of the pass, the reply to the position
  query, and whether \<^verbatim>\<open>GPS_WAIT_S\<close> has passed.\<close>

record wait_tick =
  w_stop :: bool
  w_removed :: bool
  w_gps :: query_outcome
  w_elapsed :: bool

text \<open>The result of the wait: the fix if there is one, whether the stop flag ended the
  wait, and the file. \<open>None\<close>: the schedule ends with the wait still going.\<close>

fun gps_wait :: "wait_tick list \<Rightarrow> log_file \<Rightarrow> ((pyfloat \<times> pyfloat) option \<times> bool \<times> log_file) option" where
  "gps_wait [] f = None"
| "gps_wait (t # ts) f =
     (if w_stop t then Some (None, True, f)
      else (let f1 = (if w_removed t then None else f)
            in if f1 = None then Some (None, False, f1)
               else (case parse_gps_data (reply_text (w_gps t)) of
                       (Some lat, Some lon) \<Rightarrow> Some (Some (lat, lon), False, f1)
                     | _ \<Rightarrow> if w_elapsed t then Some (None, False, f1) else gps_wait ts f1)))"


text \<open>The events of one pass of the acquisition loop: the two replies, whether the file
  is removed during the pass (after the test \<^verbatim>\<open>OUT_PATH.exists()\<close> and before the
  append), and whether the append goes through (its exception is caught and logged).\<close>

record sweep_env =
  s_measure :: query_outcome
  s_compass :: query_outcome
  s_unlinked :: bool
  s_append_ok :: bool

definition sweep_cycle :: "sweep_env \<Rightarrow> log_file \<Rightarrow> log_file" where
  "sweep_cycle e f =
     (let dbuv = extraer_primer_float (reply_text (s_measure e));
          dbm = map_option dbuv_to_dbm dbuv;
          az = extraer_primer_float (reply_text (s_compass e));
          f0 = (if s_unlinked e then None else f)
      in case (az, dbm) of
           (Some a, Some d) \<Rightarrow>
             if isfinite a \<and> isfinite d
             then (if s_append_ok e
                   then append_text f0 (format_f 1 a @ '','' @ format_f 2 d @ [CHR 0x0A])
                   else f0)
             else f0
         | _ \<Rightarrow> f0)"

record sweep_tick =
  s_stop :: bool
  s_removed :: bool
  s_env :: sweep_env

fun sweep_loop :: "sweep_tick list \<Rightarrow> log_file \<Rightarrow> log_file \<times> run_status" where
  "sweep_loop [] f = (f, Running)"
| "sweep_loop (t # ts) f =
     (if s_stop t then (f, Finished)
      else (let f1 = (if s_removed t then None else f)
            in if f1 = None then (f1, Finished)
               else sweep_loop ts (sweep_cycle (s_env t) f1)))"



section \<open>The frequency change (\<^verbatim>\<open>enviar_comando_frecuencia\<close> of Cambiar_freq.py)\<close>

text \<open>\<^verbatim>\<open>re.fullmatch(r"\d+(\.\d+)?", freq)\<close>.\<close>

definition re_fullmatch_number :: "string \<Rightarrow> bool" where
  "re_fullmatch_number s =
     (let ip = takeWhile isdigit s; r = dropWhile isdigit s
      in ip \<noteq> [] \<and>
         (case r of
            [] \<Rightarrow> True
          | c # fs \<Rightarrow> c = CHR ''.'' \<and> fs \<noteq> [] \<and> list_all isdigit fs))"

text \<open>\<^verbatim>\<open>_write_line\<close>: a single newline at the end, and only the ASCII characters.\<close>

definition write_line :: "string \<Rightarrow> bytes" where
  "write_line s =
     filter (\<lambda>c. (of_char c :: nat) < 0x80)
       (rev (dropWhile (\<lambda>c. c = CHR 0x0A) (rev s)) @ [CHR 0x0A])"

text \<open>
  The environment of the operation: the connection is refused, or it is made and the
  \<^verbatim>\<open>readline\<close> for the echo returns a line (the empty one when the peer closes) or the
  socket's timeout of five seconds passes, which raises. The line is given as the text
  that \<^verbatim>\<open>.decode(errors="ignore")\<close> makes of it. Exceptions of the three writes are left
  out. \<open>io_event\<close> lists what the operation did to the network.
\<close>

datatype readline_outcome = Line string | TimedOut

datatype instrument = Refused | Connected readline_outcome

datatype io_event = Connect | Send bytes | Readline

datatype freq_error = ValueError | ConnectionError | TimeoutError

definition enviar_comando_frecuencia ::
    "string \<Rightarrow> instrument \<Rightarrow> (freq_error + string) \<times> io_event list" where
  "enviar_comando_frecuencia freq_mhz env =
     (let freq = map (\<lambda>c. if c = CHR '','' then CHR ''.'' else c) (str_strip freq_mhz)
      in if \<not> re_fullmatch_number freq then (Inl ValueError, [])
         else (case env of
                 Refused \<Rightarrow> (Inl ConnectionError, [Connect])
               | Connected echo \<Rightarrow>
                   (let cmd_set = ''FREQ '' @ freq @ ''MHz'';
                        cmd_echo = ''FREQ?'';
                        sent = [Connect, Send (write_line ''*CLS''), Send (write_line cmd_set),
                                Send (write_line cmd_echo), Readline]
                    in case echo of
                         TimedOut \<Rightarrow> (Inl TimeoutError, sent)
                       | Line txt \<Rightarrow>
                           (let resp = str_strip txt
                            in (Inr (if resp = [] then ''OK'' else resp), sent)))))"

section \<open>Inputs that the claims speak of\<close>

text \<open>
  A valid position response: the three pieces after the first \<^verbatim>\<open>N\<close> or \<^verbatim>\<open>S\<close> piece are a
  latitude in degrees, minutes and seconds, and the three pieces after the first \<^verbatim>\<open>E\<close> or
  \<^verbatim>\<open>W\<close> piece that comes after them are a longitude. An angle in degrees, minutes and
  seconds has whole degrees, whole minutes from 0 to 59 and seconds from 0 up to 60
  (not included), and is at most the limit (90 for a latitude, 180 for a longitude): at the
  limit itself the minutes and seconds are zero.
\<close>

definition whole :: "rat \<Rightarrow> bool" where
  "whole x = (of_int \<lfloor>x\<rfloor> = x)"

definition finite_value :: "pyfloat option \<Rightarrow> rat option" where
  "finite_value v = (case v of Some (Fin x) \<Rightarrow> Some x | _ \<Rightarrow> None)"

definition dms_angle :: "rat \<Rightarrow> string \<Rightarrow> string \<Rightarrow> string \<Rightarrow> bool" where
  "dms_angle limit d m s =
     (case (finite_value (py_float d), finite_value (py_float m), finite_value (py_float s)) of
        (Some dv, Some mv, Some sv) \<Rightarrow>
          whole dv \<and> whole mv \<and> 0 \<le> dv \<and> 0 \<le> mv \<and> mv < 60 \<and> 0 \<le> sv \<and> sv < 60
          \<and> (dv < limit \<or> (dv = limit \<and> mv = 0 \<and> sv = 0))
      | _ \<Rightarrow> False)"

definition valid_dms_parts :: "string list \<Rightarrow> bool" where
  "valid_dms_parts parts =
     (case find_first (\<lambda>p. p \<in> set [''N'', ''S'']) parts of
        None \<Rightarrow> False
      | Some i_ns \<Rightarrow>
          i_ns + 3 < length parts
          \<and> dms_angle 90 (parts ! (i_ns + 1)) (parts ! (i_ns + 2)) (parts ! (i_ns + 3))
          \<and> (case find_first (\<lambda>p. p \<in> set [''E'', ''W'']) (drop (i_ns + 4) parts) of
                None \<Rightarrow> False
              | Some j \<Rightarrow>
                  j + (i_ns + 4) + 3 < length parts
                  \<and> dms_angle 180 (parts ! (j + (i_ns + 4) + 1)) (parts ! (j + (i_ns + 4) + 2))
                        (parts ! (j + (i_ns + 4) + 3))))"

definition valid_dms_response :: "string \<Rightarrow> bool" where
  "valid_dms_response s = (s \<noteq> [] \<and> valid_dms_parts (map str_strip (split_on (CHR '','') s)))"

text \<open>
  A defective position response: there is no \<^verbatim>\<open>N\<close> or \<^verbatim>\<open>S\<close> piece; or one of the three
  pieces after the first such piece is missing or is not a number for \<^verbatim>\<open>float\<close>; or there
  is no \<^verbatim>\<open>E\<close> or \<^verbatim>\<open>W\<close> piece after those three; or one of the three pieces after the
  first such piece is missing or not a number.
\<close>

definition missing_or_non_numeric :: "string list \<Rightarrow> nat \<Rightarrow> bool" where
  "missing_or_non_numeric parts i =
     (length parts \<le> i + 3 \<or> py_float (parts ! (i + 1)) = None
      \<or> py_float (parts ! (i + 2)) = None \<or> py_float (parts ! (i + 3)) = None)"

definition gps_defect_parts :: "string list \<Rightarrow> bool" where
  "gps_defect_parts parts =
     (case find_first (\<lambda>p. p \<in> set [''N'', ''S'']) parts of
        None \<Rightarrow> True
      | Some i_ns \<Rightarrow>
          missing_or_non_numeric parts i_ns
          \<or> (case find_first (\<lambda>p. p \<in> set [''E'', ''W'']) (drop (i_ns + 4) parts) of
                None \<Rightarrow> True
              | Some j \<Rightarrow> missing_or_non_numeric parts (j + (i_ns + 4))))"

definition gps_defect :: "string \<Rightarrow> bool" where
  "gps_defect s = gps_defect_parts (map str_strip (split_on (CHR '','') s))"






section \<open>Facts about floats\<close>

text \<open>The overflow bound as a numeral, for evaluation.\<close>

lemma b64_overflow_numeral [code]:
  "b64_overflow =
     179769313486231590772930519078902473361797697894230657273430081157732675805500963132708477322407536021120113879871393357658789768814416622492847430639474124377767893424865485276302219601246094119453082952085005768838150682342462881473913110540827237163350510684586298239947245938479716304835356329624224137216"
  by (simp add: b64_overflow_def)

lemma rhe_bounds: "\<lfloor>x\<rfloor> \<le> round_half_even x \<and> round_half_even x \<le> \<lfloor>x\<rfloor> + 1"
  by (simp add: round_half_even_def tie_to_even_def)

lemma rhe_of_int: "round_half_even (of_int n) = n"
  by (simp add: round_half_even_def tie_to_even_def)

lemma rhe_mono: "x \<le> y \<Longrightarrow> round_half_even x \<le> round_half_even y"
proof -
  assume xy: "x \<le> y"
  then have fl: "\<lfloor>x\<rfloor> \<le> \<lfloor>y\<rfloor>" by (rule floor_mono)
  show ?thesis
  proof (cases "\<lfloor>x\<rfloor> = \<lfloor>y\<rfloor>")
    case True
    with xy have "x - of_int \<lfloor>x\<rfloor> \<le> y - of_int \<lfloor>y\<rfloor>" by simp
    with True show ?thesis by (auto simp: round_half_even_def tie_to_even_def)
  next
    case False
    with fl have "\<lfloor>x\<rfloor> + 1 \<le> \<lfloor>y\<rfloor>" by simp
    with rhe_bounds [of x] rhe_bounds [of y] show ?thesis by linarith
  qed
qed

lemma rhe_le: "x \<le> of_int n \<Longrightarrow> round_half_even x \<le> n"
  using rhe_mono [of x "of_int n"] by (simp add: rhe_of_int)

lemma rhe_ge: "of_int n \<le> x \<Longrightarrow> n \<le> round_half_even x"
  using rhe_mono [of "of_int n" x] by (simp add: rhe_of_int)

lemma ilog2_bounds:
  assumes "0 < q"
  shows "2 powi (ilog2 q) \<le> q \<and> q < 2 powi (ilog2 q + 1)"
proof (cases "1 \<le> q")
  case True
  define n where "n = \<lfloor>q\<rfloor>"
  from True have npos: "0 < n" by (simp add: n_def)
  from bitlen_bounds [OF npos] have lo: "2 ^ nat (bitlen n - 1) \<le> n" and hi: "n < 2 ^ nat (bitlen n)"
    by simp_all
  have b1: "1 \<le> bitlen n" using npos by (simp add: bitlen_alt_def)
  have e: "ilog2 q = bitlen n - 1" using True by (simp add: ilog2_def n_def)
  have "(2::rat) ^ nat (bitlen n - 1) = of_int (2 ^ nat (bitlen n - 1))" by simp
  also have "\<dots> \<le> of_int n" using lo by (simp only: of_int_le_iff)
  also have "\<dots> \<le> q" by (simp add: n_def)
  finally have l: "(2::rat) ^ nat (bitlen n - 1) \<le> q" .
  have "q < of_int (n + 1)" unfolding n_def by linarith
  also have "\<dots> \<le> of_int (2 ^ nat (bitlen n))" using hi by (simp only: of_int_le_iff)
  also have "\<dots> = (2::rat) ^ nat (bitlen n)" by simp
  finally have h: "q < (2::rat) ^ nat (bitlen n)" .
  from l h b1 show ?thesis by (simp add: e power_int_def)
next
  case False
  define x where "x = 1 / q"
  define m where "m = \<lceil>x\<rceil> - 1"
  from False assms have x1: "1 < x" by (simp add: x_def)
  then have mpos: "0 < m" unfolding m_def by linarith
  from bitlen_bounds [OF mpos] have lo: "2 ^ nat (bitlen m - 1) \<le> m" and hi: "m < 2 ^ nat (bitlen m)"
    by simp_all
  have b1: "1 \<le> bitlen m" using mpos by (simp add: bitlen_alt_def)
  have e: "ilog2 q = - bitlen m" using False by (simp add: ilog2_def m_def x_def)
  have "x \<le> of_int (m + 1)" unfolding m_def by simp
  also have "\<dots> \<le> of_int (2 ^ nat (bitlen m))" using hi by (simp only: of_int_le_iff)
  also have "\<dots> = (2::rat) ^ nat (bitlen m)" by simp
  finally have xh: "x \<le> 2 ^ nat (bitlen m)" .
  have "(2::rat) ^ nat (bitlen m - 1) = of_int (2 ^ nat (bitlen m - 1))" by simp
  also have "\<dots> \<le> of_int m" using lo by (simp only: of_int_le_iff)
  also have "\<dots> < x" unfolding m_def by linarith
  finally have xl: "2 ^ nat (bitlen m - 1) < x" .
  have l: "1 / 2 ^ nat (bitlen m) \<le> q"
    using xh assms by (simp add: x_def field_simps)
  have h: "q < 1 / 2 ^ nat (bitlen m - 1)"
    using xl assms by (simp add: x_def field_simps)
  have p1: "(2::rat) powi (- bitlen m) = 1 / 2 ^ nat (bitlen m)"
    using b1 by (simp add: power_int_def field_simps)
  have p2: "(2::rat) powi (- bitlen m + 1) = 1 / 2 ^ nat (bitlen m - 1)"
  proof (cases "bitlen m = 1")
    case True
    then show ?thesis by simp
  next
    case False
    with b1 have "- bitlen m + 1 < 0" by simp
    moreover have "nat (- (- bitlen m + 1)) = nat (bitlen m - 1)" by simp
    ultimately show ?thesis by (simp add: power_int_def field_simps)
  qed
  have P1: "(2::rat) powi (ilog2 q) = 1 / 2 ^ nat (bitlen m)" unfolding e by (rule p1)
  have P2: "(2::rat) powi (ilog2 q + 1) = 1 / 2 ^ nat (bitlen m - 1)" unfolding e by (rule p2)
  show ?thesis unfolding P1 P2 using l h by blast
qed

lemma pow2_mono: "a \<le> b \<Longrightarrow> (2::rat) powi a \<le> 2 powi b"
  by (rule power_int_increasing) simp_all

lemma pow2_pos: "0 < (2::rat) powi a"
  by simp

lemma ilog2_mono:
  assumes "0 < q" "q \<le> q'"
  shows "ilog2 q \<le> ilog2 q'"
proof (rule ccontr)
  assume "\<not> ilog2 q \<le> ilog2 q'"
  then have "ilog2 q' + 1 \<le> ilog2 q" by simp
  then have "(2::rat) powi (ilog2 q' + 1) \<le> 2 powi (ilog2 q)" by (rule pow2_mono)
  moreover have "q' < 2 powi (ilog2 q' + 1)" using ilog2_bounds [of q'] assms by simp
  moreover have "2 powi (ilog2 q) \<le> q" using ilog2_bounds [of q] assms by simp
  ultimately show False using assms by linarith
qed

lemma pow2_split: "(2::rat) powi (a + b) = 2 powi a * 2 powi b"
  by (simp add: power_int_add)

lemma b64_round_nonneg: "0 \<le> q \<Longrightarrow> 0 \<le> b64_round q"
proof -
  assume q: "0 \<le> q"
  have u: "0 < b64_quantum q" by (simp add: b64_quantum_def)
  with q have "0 \<le> q / b64_quantum q" by simp
  then have "0 \<le> round_half_even (q / b64_quantum q)" using rhe_ge [of 0] by simp
  with u show ?thesis by (simp add: b64_round_def round_to_multiple_def)
qed

lemma b64_round_mono:
  assumes q: "0 \<le> q" and le: "q \<le> q'"
  shows "b64_round q \<le> b64_round q'"
proof (cases "q = 0")
  case True
  with le b64_round_nonneg [of q'] show ?thesis by (simp add: b64_round_def round_to_multiple_def)
next
  case False
  with q have qpos: "0 < q" by simp
  with le have q'pos: "0 < q'" by simp
  define E where "E = max (ilog2 q) (- 1022)"
  define E' where "E' = max (ilog2 q') (- 1022)"
  have u: "b64_quantum q = 2 powi (E - 52)" and u': "b64_quantum q' = 2 powi (E' - 52)"
    by (simp_all add: b64_quantum_def E_def E'_def)
  have EE: "E \<le> E'" using ilog2_mono [OF qpos le] by (simp add: E_def E'_def)
  have R: "b64_round q = of_int (round_half_even (q / 2 powi (E - 52))) * 2 powi (E - 52)"
    using qpos by (simp add: b64_round_def round_to_multiple_def u)
  have R': "b64_round q' = of_int (round_half_even (q' / 2 powi (E' - 52))) * 2 powi (E' - 52)"
    using q'pos by (simp add: b64_round_def round_to_multiple_def u')
  show ?thesis
  proof (cases "E = E'")
    case True
    have "q / 2 powi (E - 52) \<le> q' / 2 powi (E - 52)"
      using le by (simp add: divide_right_mono)
    then have "round_half_even (q / 2 powi (E - 52)) \<le> round_half_even (q' / 2 powi (E - 52))"
      by (rule rhe_mono)
    then show ?thesis unfolding R R' True [symmetric] by (simp add: mult_right_mono)
  next
    case False
    with EE have lt: "E + 1 \<le> E'" by simp
    then have E'eq: "E' = ilog2 q'" by (simp add: E'_def E_def split: if_splits)
    have "q < 2 powi (ilog2 q + 1)" using ilog2_bounds [OF qpos] by simp
    also have "\<dots> \<le> 2 powi (E + 1)" by (rule pow2_mono) (simp add: E_def)
    finally have qlt: "q < 2 powi (E + 1)" .
    have sp: "(2::rat) powi (E + 1) = 2 powi 53 * 2 powi (E - 52)"
      using pow2_split [of 53 "E - 52"] by (simp add: add.commute)
    have "q / 2 powi (E - 52) \<le> of_int (2 ^ 53)"
      using qlt sp by (simp add: field_simps)
    then have "round_half_even (q / 2 powi (E - 52)) \<le> 2 ^ 53" by (rule rhe_le)
    then have "of_int (round_half_even (q / 2 powi (E - 52))) \<le> (of_int (2 ^ 53) :: rat)"
      by (simp only: of_int_le_iff)
    then have "b64_round q \<le> of_int (2 ^ 53) * 2 powi (E - 52)"
      unfolding R by (simp add: mult_right_mono)
    also have "\<dots> = 2 powi (E + 1)" using sp by simp
    also have "\<dots> \<le> 2 powi E'" using lt by (rule pow2_mono)
    finally have up: "b64_round q \<le> 2 powi E'" .
    have "2 powi E' \<le> q'" using ilog2_bounds [OF q'pos] by (simp add: E'eq)
    moreover have sp': "(2::rat) powi E' = 2 powi 52 * 2 powi (E' - 52)"
      using pow2_split [of 52 "E' - 52"] by (simp add: add.commute)
    ultimately have "of_int (2 ^ 52) \<le> q' / 2 powi (E' - 52)"
      by (simp add: field_simps)
    then have "2 ^ 52 \<le> round_half_even (q' / 2 powi (E' - 52))" by (rule rhe_ge)
    then have "(of_int (2 ^ 52) :: rat) \<le> of_int (round_half_even (q' / 2 powi (E' - 52)))"
      by (simp only: of_int_le_iff)
    then have "of_int (2 ^ 52) * 2 powi (E' - 52) \<le> b64_round q'"
      unfolding R' by (simp add: mult_right_mono)
    then have "2 powi E' \<le> b64_round q'" using sp' by simp
    with up show ?thesis by linarith
  qed
qed




lemma ilog2_unique:
  assumes "2 powi e \<le> q" "q < 2 powi (e + 1)"
  shows "ilog2 q = e"
proof -
  have qpos: "0 < q" using assms(1) pow2_pos [of e] by linarith
  have le: "e \<le> ilog2 q"
  proof -
    have "\<not> ilog2 q + 1 \<le> e"
    proof
      assume "ilog2 q + 1 \<le> e"
      then have "(2::rat) powi (ilog2 q + 1) \<le> 2 powi e" by (rule pow2_mono)
      with ilog2_bounds [OF qpos] assms(1) show False by linarith
    qed
    then show ?thesis by simp
  qed
  have "\<not> e + 1 \<le> ilog2 q"
  proof
    assume "e + 1 \<le> ilog2 q"
    then have "(2::rat) powi (e + 1) \<le> 2 powi (ilog2 q)" by (rule pow2_mono)
    with ilog2_bounds [OF qpos] assms(2) show False by linarith
  qed
  with le show ?thesis by simp
qed

lemma rhe_lt_half: "x < of_int n + 1 / 2 \<Longrightarrow> round_half_even x \<le> n"
proof -
  assume a: "x < of_int n + 1 / 2"
  then have "\<lfloor>x\<rfloor> \<le> n" by linarith
  show ?thesis
  proof (cases "\<lfloor>x\<rfloor> = n")
    case True
    with a have "x - of_int \<lfloor>x\<rfloor> < 1 / 2" by simp
    with True show ?thesis by (simp add: round_half_even_def tie_to_even_def)
  next
    case False
    with \<open>\<lfloor>x\<rfloor> \<le> n\<close> have "\<lfloor>x\<rfloor> + 1 \<le> n" by simp
    with rhe_bounds [of x] show ?thesis by linarith
  qed
qed

lemma b64_round_le_pow:
  assumes qpos: "0 < q"
  shows "b64_round q \<le> 2 powi (max (ilog2 q) (- 1022) + 1)"
proof -
  define E where "E = max (ilog2 q) (- 1022)"
  have R: "b64_round q = of_int (round_half_even (q / 2 powi (E - 52))) * 2 powi (E - 52)"
    using qpos by (simp add: b64_round_def round_to_multiple_def b64_quantum_def E_def)
  have "q < 2 powi (ilog2 q + 1)" using ilog2_bounds [OF qpos] by simp
  also have "\<dots> \<le> 2 powi (E + 1)" by (rule pow2_mono) (simp add: E_def)
  finally have qlt: "q < 2 powi (E + 1)" .
  have sp: "(2::rat) powi (E + 1) = 2 powi 53 * 2 powi (E - 52)"
    using pow2_split [of 53 "E - 52"] by (simp add: add.commute)
  have "q / 2 powi (E - 52) \<le> of_int (2 ^ 53)"
    using qlt sp by (simp add: field_simps)
  then have "round_half_even (q / 2 powi (E - 52)) \<le> 2 ^ 53" by (rule rhe_le)
  then have "of_int (round_half_even (q / 2 powi (E - 52))) \<le> (of_int (2 ^ 53) :: rat)"
    by (simp only: of_int_le_iff)
  then have "b64_round q \<le> of_int (2 ^ 53) * 2 powi (E - 52)"
    unfolding R by (simp add: mult_right_mono)
  also have "\<dots> = 2 powi (E + 1)" using sp by simp
  finally show ?thesis by (simp add: E_def)
qed

lemma ilog2_lt: "0 < q \<Longrightarrow> q < 2 powi e \<Longrightarrow> ilog2 q < e"
proof (rule ccontr)
  assume q: "0 < q" "q < 2 powi e" and "\<not> ilog2 q < e"
  then have "(2::rat) powi e \<le> 2 powi (ilog2 q)" by (intro pow2_mono) simp
  with ilog2_bounds [OF q(1)] q(2) show False by linarith
qed

lemma rhe_tie_53: "round_half_even (18014398509481983 / 2) = 9007199254740992"
  by code_simp

lemma pow_1024: "(2::rat) ^ 1024 - 2 ^ 970 = (9007199254740991 + 1 / 2) * 2 ^ 971"
  by simp

lemma pow_max: "(2::rat) ^ 1024 - 2 ^ 971 = 9007199254740991 * 2 ^ 971"
  by simp

lemma b64_round_below_threshold:
  assumes q: "0 \<le> q" and lt: "q < 2 ^ 1024 - 2 ^ 970"
  shows "b64_round q \<le> 2 ^ 1024 - 2 ^ 971"
proof (cases "q < 2 ^ 1023")
  case True
  show ?thesis
  proof (cases "q = 0")
    case True
    then show ?thesis by (simp add: b64_round_def round_to_multiple_def)
  next
    case False
    with q have qpos: "0 < q" by simp
    from True have "q < 2 powi 1023" by simp
    with qpos have "ilog2 q < 1023" by (rule ilog2_lt)
    then have "max (ilog2 q) (- 1022) + 1 \<le> 1023" by simp
    then have "(2::rat) powi (max (ilog2 q) (- 1022) + 1) \<le> 2 powi 1023" by (rule pow2_mono)
    with b64_round_le_pow [OF qpos] have "b64_round q \<le> 2 ^ 1023" by simp
    also have "\<dots> \<le> (2::rat) ^ 1024 - 2 ^ 971" by simp
    finally show ?thesis .
  qed
next
  case False
  then have lo: "2 powi 1023 \<le> q" by simp
  have "(2::rat) ^ 1024 - 2 ^ 970 \<le> 2 ^ 1024" by simp
  with lt have hi: "q < 2 powi (1023 + 1)" by simp
  have e: "ilog2 q = 1023" using lo hi by (rule ilog2_unique)
  have qpos: "0 < q" using lo pow2_pos [of 1023] by linarith
  have R: "b64_round q = of_int (round_half_even (q / 2 ^ 971)) * 2 ^ 971"
    using qpos by (simp add: b64_round_def round_to_multiple_def b64_quantum_def e)
  have "q / 2 ^ 971 < of_int 9007199254740991 + 1 / 2"
    using lt unfolding pow_1024 by (simp add: field_simps)
  then have "round_half_even (q / 2 ^ 971) \<le> 9007199254740991" by (rule rhe_lt_half)
  then have "of_int (round_half_even (q / 2 ^ 971)) \<le> (of_int 9007199254740991 :: rat)"
    by (simp only: of_int_le_iff)
  then have "b64_round q \<le> of_int 9007199254740991 * 2 ^ 971"
    unfolding R by (simp add: mult_right_mono)
  then show ?thesis unfolding pow_max by simp
qed

lemma b64_round_threshold: "b64_round (2 ^ 1024 - 2 ^ 970) = 2 ^ 1024"
proof -
  let ?q = "(2::rat) ^ 1024 - 2 ^ 970"
  have lo: "2 powi 1023 \<le> ?q" by simp
  have hi: "?q < 2 powi (1023 + 1)" by simp
  have e: "ilog2 ?q = 1023" using lo hi by (rule ilog2_unique)
  have qpos: "?q \<noteq> 0" by simp
  have "b64_round ?q = of_int (round_half_even (?q / 2 ^ 971)) * 2 ^ 971"
    using qpos by (simp only: b64_round_def round_to_multiple_def b64_quantum_def e) simp
  also have "?q / 2 ^ 971 = 9007199254740991 + 1 / 2" unfolding pow_1024 by simp
  finally show ?thesis by (simp add: rhe_tie_53)
qed

lemma b64_round_overflow:
  assumes "2 ^ 1024 - 2 ^ 970 \<le> q"
  shows "2 ^ 1024 \<le> b64_round q"
proof -
  have "(0::rat) \<le> 2 ^ 1024 - 2 ^ 970" by simp
  from b64_round_mono [OF this assms] show ?thesis by (simp only: b64_round_threshold)
qed

lemma b64_nonneg:
  "0 \<le> q \<Longrightarrow> b64 q = (if 2 ^ 1024 \<le> b64_round q then PInf else Fin (b64_round q))"
  by (simp add: b64_def float_of_magnitude_def b64_overflow_def)

lemma b64_not_NaN: "b64 q \<noteq> NaN"
  by (simp add: b64_def float_of_magnitude_def b64_overflow_def)

text \<open>A finite result of a rounding is at most the largest binary64 number.\<close>

lemma b64_Fin_bound:
  assumes "b64 q = Fin x"
  shows "\<bar>x\<bar> \<le> 2 ^ 1024 - 2 ^ 971"
proof -
  define m where "m = b64_round \<bar>q\<bar>"
  have mn: "0 \<le> m" unfolding m_def by (rule b64_round_nonneg) simp
  from assms have fin: "m < 2 ^ 1024" and x: "\<bar>x\<bar> = m"
    using mn by (auto simp: b64_def float_of_magnitude_def b64_overflow_def m_def [symmetric] split: if_splits)
  have "\<bar>q\<bar> < 2 ^ 1024 - 2 ^ 970"
  proof (rule ccontr)
    assume "\<not> \<bar>q\<bar> < 2 ^ 1024 - 2 ^ 970"
    then have "2 ^ 1024 \<le> b64_round \<bar>q\<bar>" by (intro b64_round_overflow) simp
    with fin show False by (simp add: m_def)
  qed
  then have "m \<le> 2 ^ 1024 - 2 ^ 971" unfolding m_def by (intro b64_round_below_threshold) simp_all
  with x show ?thesis by simp
qed

lemma b64_finite:
  assumes "\<bar>q\<bar> < 2 ^ 1024 - 2 ^ 970"
  shows "isfinite (b64 q)"
proof -
  have "b64_round \<bar>q\<bar> \<le> 2 ^ 1024 - 2 ^ 971"
    using assms by (intro b64_round_below_threshold) simp_all
  moreover have "(2::rat) ^ 1024 - 2 ^ 971 < 2 ^ 1024" by simp
  ultimately have "\<not> 2 ^ 1024 \<le> b64_round \<bar>q\<bar>" by linarith
  then show ?thesis by (simp add: b64_def float_of_magnitude_def b64_overflow_def)
qed

text \<open>A rounding of a number between 0 and \<open>c\<close> is a finite float between 0 and the
  rounding of \<open>c\<close>.\<close>

lemma b64_between:
  assumes "0 \<le> q" "q \<le> c" "b64_round c < 2 ^ 1024"
  shows "\<exists>x. b64 q = Fin x \<and> 0 \<le> x \<and> x \<le> b64_round c"
proof -
  have "b64_round q \<le> b64_round c" using assms(1,2) by (rule b64_round_mono)
  with assms(3) have "\<not> 2 ^ 1024 \<le> b64_round q" by linarith
  with assms(1) have "b64 q = Fin (b64_round q)" by (simp add: b64_nonneg)
  with \<open>b64_round q \<le> b64_round c\<close> b64_round_nonneg [OF assms(1)] show ?thesis by simp
qed

section \<open>Facts about text\<close>

lemma isdigit_cases:
  "isdigit c \<longleftrightarrow> c = CHR ''0'' \<or> c = CHR ''1'' \<or> c = CHR ''2'' \<or> c = CHR ''3'' \<or> c = CHR ''4''
     \<or> c = CHR ''5'' \<or> c = CHR ''6'' \<or> c = CHR ''7'' \<or> c = CHR ''8'' \<or> c = CHR ''9''"
  by (simp add: isdigit_def)

lemma isdigit_not_special:
  "isdigit c \<Longrightarrow> c \<noteq> CHR ''_'' \<and> c \<noteq> CHR ''-'' \<and> c \<noteq> CHR ''+'' \<and> c \<noteq> CHR ''.''
     \<and> c \<noteq> CHR ''e'' \<and> c \<noteq> CHR ''E'' \<and> c \<noteq> CHR '','' \<and> c \<noteq> CHR 0x0A"
  unfolding isdigit_cases by auto

lemma isdigit_not_space:
  "isdigit c \<Longrightarrow> \<not> bytes_isspace c \<and> \<not> float_isspace c \<and> \<not> str_isspace c"
  unfolding isdigit_cases bytes_isspace_def float_isspace_def str_isspace_def by auto

lemma dropWhile_none: "\<forall>c\<in>set xs. \<not> P c \<Longrightarrow> dropWhile P xs = xs"
  by (cases xs) auto

lemma strip_with_none: "\<forall>c\<in>set xs. \<not> P c \<Longrightarrow> strip_with P xs = xs"
  by (simp add: strip_with_def dropWhile_none)

lemma digitpart_digits: "ds \<noteq> [] \<Longrightarrow> \<forall>c\<in>set ds. isdigit c \<Longrightarrow> digitpart ds = Some ds"
proof (induction ds rule: digitpart.induct)
  case 1
  then show ?case by simp
next
  case (2 c)
  then show ?case by simp
next
  case (3 c d ds)
  from "3.prems" have c: "isdigit c" and d: "isdigit d" and ds: "\<forall>x\<in>set (d # ds). isdigit x"
    by simp_all
  from d have nu: "d \<noteq> CHR ''_''" using isdigit_not_special by blast
  from "3.IH"(2) c nu ds have "digitpart (d # ds) = Some (d # ds)" by simp
  with c nu show ?case by simp
qed

lemma py_int_digits:
  assumes ne: "ds \<noteq> []" and dg: "\<forall>c\<in>set ds. isdigit c"
  shows "py_int ds = Some (decimal_value ds)"
proof -
  from ne obtain c cs where ds: "ds = c # cs" by (cases ds) auto
  with dg have "isdigit c" by simp
  then have ns: "c \<noteq> CHR ''-''" "c \<noteq> CHR ''+''" using isdigit_not_special by blast+
  have "strip_with bytes_isspace ds = ds"
    by (rule strip_with_none) (use dg isdigit_not_space in blast)
  then have st: "strip_with bytes_isspace (c # cs) = c # cs" using ds by simp
  have dp: "digitpart (c # cs) = Some (c # cs)"
    using digitpart_digits [OF ne dg] ds by simp
  show ?thesis unfolding py_int_def ds st using ns dp by simp
qed

lemma decimal_value_single: "decimal_value [c] = int (digit_val c)"
  by (simp add: decimal_value_def)

section \<open>Facts about the block reader\<close>

lemma sock_read_concat:
  "sock_read n s = (chunk, s') \<Longrightarrow> chunk @ concat s' = concat s"
proof (induction n s arbitrary: chunk s' rule: sock_read.induct)
  case (1 n)
  then show ?case by simp
next
  case (2 n seg segs)
  then show ?case by (auto split: if_splits)
qed

lemma sock_read_length: "length (fst (sock_read n s)) \<le> n"
  by (induction n s rule: sock_read.induct) auto

lemma sock_read_nonempty:
  "0 < n \<Longrightarrow> concat s \<noteq> [] \<Longrightarrow> fst (sock_read n s) \<noteq> []"
  by (induction n s rule: sock_read.induct) auto

text \<open>A read of one byte takes the first byte of the stream, however the stream is cut
  into segments.\<close>

lemma sock_read_1_append:
  "concat pre = c # r \<Longrightarrow>
   \<exists>pre'. sock_read (Suc 0) (pre @ rest) = ([c], pre' @ rest) \<and> concat pre' = r"
proof (induction pre)
  case Nil
  then show ?case by simp
next
  case (Cons seg pre)
  show ?case
  proof (cases "seg = []")
    case True
    with Cons show ?thesis by simp
  next
    case False
    then obtain x xs where seg: "seg = x # xs" by (cases seg) auto
    with Cons.prems have x: "x = c" and r: "xs @ concat pre = r" by auto
    show ?thesis
    proof (cases "xs = []")
      case True
      with seg x r show ?thesis by (intro exI [of _ pre]) simp
    next
      case False
      with seg x r show ?thesis by (intro exI [of _ "xs # pre"]) simp
    qed
  qed
qed

lemma sock_read_skip_empty:
  "concat pre = [] \<Longrightarrow> 0 < n \<Longrightarrow> sock_read n (pre @ s) = sock_read n s"
  by (induction pre) auto

text \<open>The loop returns the bytes that are missing as soon as the stream holds them, in
  however many chunks they come, and leaves the rest of the stream.\<close>

lemma recv_payload_enough:
  "int (length data) \<le> blen \<Longrightarrow> nat blen \<le> length data + length (concat s) \<Longrightarrow>
   \<exists>s'. recv_payload blen data s = (Inr (data @ take (nat blen - length data) (concat s)), s')
        \<and> concat s' = drop (nat blen - length data) (concat s)"
proof (induction blen data s rule: recv_payload.induct)
  case (1 blen data s)
  show ?case
  proof (cases "int (length data) < blen")
    case False
    with "1.prems" have "nat blen - length data = 0" by simp
    with False show ?thesis by (simp add: recv_payload.simps [of blen data s])
  next
    case True
    define n where "n = nat (blen - int (length data))"
    obtain chunk s1 where rd: "sock_read n s = (chunk, s1)" by (cases "sock_read n s")
    from True have npos: "0 < n" by (simp add: n_def)
    from True "1.prems"(2) have "0 < length (concat s)" by linarith
    then have "concat s \<noteq> []" by (metis length_greater_0_conv)
    with npos rd have ne: "chunk \<noteq> []" using sock_read_nonempty [of n s] by simp
    from rd have cat: "chunk @ concat s1 = concat s" by (rule sock_read_concat)
    from rd have len: "length chunk \<le> n" using sock_read_length [of n s] by simp
    have n_eq: "n = nat blen - length data" using True by (simp add: n_def)
    have p1: "int (length (data @ chunk)) \<le> blen" using len True by (simp add: n_def)
    have p2: "nat blen \<le> length (data @ chunk) + length (concat s1)"
      using "1.prems"(2) cat by (metis length_append add.assoc)
    have "\<exists>s'. recv_payload blen (data @ chunk) s1 =
        (Inr ((data @ chunk) @ take (nat blen - length (data @ chunk)) (concat s1)), s')
      \<and> concat s' = drop (nat blen - length (data @ chunk)) (concat s1)"
      using "1.IH" [of "(chunk, s1)"] True rd ne p1 p2 by (simp add: n_def)
    then obtain s' where r: "recv_payload blen (data @ chunk) s1 =
        (Inr ((data @ chunk) @ take (nat blen - length (data @ chunk)) (concat s1)), s')"
      and c: "concat s' = drop (nat blen - length (data @ chunk)) (concat s1)"
      by blast
    have t: "chunk @ take (nat blen - length (data @ chunk)) (concat s1)
               = take (nat blen - length data) (concat s)"
      using len cat [symmetric] by (simp add: n_eq)
    have d: "drop (nat blen - length (data @ chunk)) (concat s1)
               = drop (nat blen - length data) (concat s)"
      using len cat [symmetric] by (simp add: n_eq)
    show ?thesis
      using True rd ne r c t d
      by (simp add: recv_payload.simps [of blen data s] n_def)
  qed
qed

text \<open>A read of one byte from a stream whose header bytes \<open>c # r\<close> are spread over the
  segments \<open>pre\<close> and the start \<open>h\<close> of a segment that goes on with \<open>t\<close>.\<close>

lemma sock_read_1_header:
  "concat pre @ h = c # r \<Longrightarrow> t \<noteq> [] \<Longrightarrow>
   \<exists>pre' h'. sock_read (Suc 0) (pre @ (h @ t) # segs) = ([c], pre' @ (h' @ t) # segs)
            \<and> concat pre' @ h' = r"
proof (induction pre)
  case Nil
  then have h: "h = c # r" by simp
  from Nil(2) have "\<not> length (c # r @ t) \<le> Suc 0" by (cases t) auto
  then have "sock_read (Suc 0) ((h @ t) # segs) = ([c], [] @ (r @ t) # segs)"
    by (simp add: h)
  then show ?case by (intro exI [of _ "[]"] exI [of _ r]) simp
next
  case (Cons seg pre)
  show ?case
  proof (cases "seg = []")
    case True
    with Cons show ?thesis by simp
  next
    case False
    then obtain x xs where seg: "seg = x # xs" by (cases seg) auto
    with Cons.prems(1) have x: "x = c" and r: "concat (xs # pre) @ h = r" by auto
    show ?thesis
    proof (cases "xs = []")
      case True
      with seg x r show ?thesis by (intro exI [of _ pre] exI [of _ h]) simp
    next
      case False
      with seg x r show ?thesis by (intro exI [of _ "xs # pre"] exI [of _ h]) simp
    qed
  qed
qed

lemmas block_eval =
  scpi_recv_block_def py_int_def strip_with_def bytes_isspace_def isdigit_def
  decimal_value_def digit_val_def recv_payload.simps

section \<open>The block reader: claims\<close>

text \<open>
  Claim C2, as amended. A stream framed as \<^verbatim>\<open>#\<close>, one digit \<open>nd\<close>, then as many length
  digits \<open>lens\<close> as \<open>nd\<close> says (at least one), then the payload, of which the stream holds at
  least \<open>len = decimal_value lens\<close> bytes. The two bytes \<^verbatim>\<open>#\<close> and \<open>nd\<close> may come in any
  segments: some of them whole segments (\<open>pre\<close>), the last of them at the start (\<open>h\<close>) of
  the segment that holds the length digits, or all of them there (a block that comes in one
  piece has \<open>pre = []\<close> and \<open>h\<close> the two bytes). The length digits come in one segment,
  which may go on with payload (\<open>p0\<close>); the rest of the payload comes in any segments
  (\<open>segs\<close>). Then the reader returns exactly the first \<open>len\<close> payload bytes, and what is
  left of the stream is exactly what follows them. In particular \<^verbatim>\<open>b"#211HELLOWORLD!"\<close>
  decodes to \<^verbatim>\<open>b"HELLOWORLD!"\<close>, which has 11 bytes.
\<close>

theorem block_reader_returns_payload:
  assumes hdr: "concat pre @ h = [CHR ''#'', nd]"
    and nd: "isdigit nd" "digit_val nd = length lens" "lens \<noteq> []"
    and lens: "\<forall>c\<in>set lens. isdigit c"
    and len: "nat (decimal_value lens) \<le> length (p0 @ concat segs)"
  shows "(\<exists>s'. scpi_recv_block (pre @ (h @ lens @ p0) # segs)
               = (Inr (take (nat (decimal_value lens)) (p0 @ concat segs)), s')
             \<and> concat s' = drop (nat (decimal_value lens)) (p0 @ concat segs))
         \<and> scpi_recv_block [''#211HELLOWORLD!''] = (Inr ''HELLOWORLD!'', [])
         \<and> length ''HELLOWORLD!'' = 11"
proof -
  let ?t = "lens @ p0"
  let ?len = "decimal_value lens"
  have tne: "?t \<noteq> []" using nd(3) by simp
  from sock_read_1_header [OF hdr tne, of segs]
  obtain pre1 h1 where r1: "sock_read 1 (pre @ (h @ ?t) # segs) = (''#'', pre1 @ (h1 @ ?t) # segs)"
    and c1: "concat pre1 @ h1 = [nd]" by auto
  from sock_read_1_header [OF c1 tne, of segs]
  obtain pre2 h2 where r2: "sock_read 1 (pre1 @ (h1 @ ?t) # segs) = ([nd], pre2 @ (h2 @ ?t) # segs)"
    and c2: "concat pre2 @ h2 = []" by auto
  from c2 have c2': "concat pre2 = []" and h2: "h2 = []" by simp_all
  have i1: "py_int [nd] = Some (int (length lens))"
    using py_int_digits [of "[nd]"] nd by (simp add: decimal_value_single)
  have npos: "0 < length lens" using nd by simp
  have r3: "sock_read (length lens) (pre2 @ (h2 @ ?t) # segs)
              = (lens, if p0 = [] then segs else p0 # segs)"
    using sock_read_skip_empty [OF c2' npos, of "?t # segs"] nd by (auto simp: h2)
  have i2: "py_int lens = Some ?len"
    using py_int_digits [OF nd(3) lens] .
  let ?s3 = "if p0 = [] then segs else p0 # segs"
  have c3: "concat ?s3 = p0 @ concat segs" by simp
  have nonneg: "0 \<le> ?len"
  proof -
    have "\<And>acc. 0 \<le> acc \<Longrightarrow> 0 \<le> foldl (\<lambda>acc c. 10 * acc + int (digit_val c)) acc lens"
      by (induction lens) auto
    then show ?thesis by (simp add: decimal_value_def)
  qed
  from recv_payload_enough [of "[]" ?len ?s3] len c3 nonneg
  obtain s' where rp: "recv_payload ?len [] ?s3
        = (Inr (take (nat ?len) (p0 @ concat segs)), s')"
    and cs: "concat s' = drop (nat ?len) (p0 @ concat segs)"
    by (auto simp del: concat.simps)
  have general: "\<exists>s'. scpi_recv_block (pre @ (h @ lens @ p0) # segs)
               = (Inr (take (nat ?len) (p0 @ concat segs)), s')
             \<and> concat s' = drop (nat ?len) (p0 @ concat segs)"
    using r1 r2 i1 r3 i2 rp cs by (simp add: scpi_recv_block_def)
  have example: "scpi_recv_block [''#211HELLOWORLD!''] = (Inr ''HELLOWORLD!'', [])"
    by (simp add: block_eval)
  show ?thesis using general example by simp
qed

theorem block_reader_returns_payload_witness:
  "concat [] @ ''#2'' = [CHR ''#'', CHR ''2'']
   \<and> concat [''#''] @ ''2'' = [CHR ''#'', CHR ''2'']
   \<and> isdigit (CHR ''2'') \<and> digit_val (CHR ''2'') = length ''11'' \<and> ''11'' \<noteq> []
   \<and> list_all isdigit ''11''
   \<and> nat (decimal_value ''11'') \<le> length (''HELLOWORLD!'' @ concat [])
   \<and> nat (decimal_value ''11'') \<le> length (''HEL'' @ concat [''LOWOR'', ''LD!'', ''*IDN''])
   \<and> (\<exists>s'. scpi_recv_block ([] @ (''#2'' @ ''11'' @ ''HELLOWORLD!'') # [])
               = (Inr ''HELLOWORLD!'', s')
             \<and> concat s' = [])
   \<and> (\<exists>s'. scpi_recv_block ([''#''] @ (''2'' @ ''11'' @ ''HEL'') # [''LOWOR'', ''LD!'', ''*IDN''])
               = (Inr ''HELLOWORLD!'', s')
             \<and> concat s' = ''*IDN'')"
proof -
  have g1: "concat [] @ ''#2'' = [CHR ''#'', CHR ''2'']" by simp
  have g2: "concat [''#''] @ ''2'' = [CHR ''#'', CHR ''2'']" by simp
  have h2: "isdigit (CHR ''2'')" by (simp add: isdigit_def)
  have h3: "digit_val (CHR ''2'') = length ''11''" by (simp add: digit_val_def)
  have h4: "''11'' \<noteq> []" by simp
  have h5: "\<forall>c\<in>set ''11''. isdigit c" by (simp add: isdigit_def)
  have dv: "decimal_value ''11'' = 11" by (simp add: decimal_value_def digit_val_def)
  have k1: "nat (decimal_value ''11'') \<le> length (''HELLOWORLD!'' @ concat [])"
    by (simp add: dv)
  have k2: "nat (decimal_value ''11'') \<le> length (''HEL'' @ concat [''LOWOR'', ''LD!'', ''*IDN''])"
    by (simp add: dv)
  from block_reader_returns_payload [OF g1 h2 h3 h4 h5 k1]
  have a: "\<exists>s'. scpi_recv_block ([] @ (''#2'' @ ''11'' @ ''HELLOWORLD!'') # [])
               = (Inr ''HELLOWORLD!'', s') \<and> concat s' = []"
    by (simp add: dv)
  from block_reader_returns_payload [OF g2 h2 h3 h4 h5 k2]
  have b: "\<exists>s'. scpi_recv_block ([''#''] @ (''2'' @ ''11'' @ ''HEL'') # [''LOWOR'', ''LD!'', ''*IDN''])
               = (Inr ''HELLOWORLD!'', s') \<and> concat s' = ''*IDN''"
    by (simp add: dv)
  from g1 g2 h2 h3 h4 h5 k1 k2 a b show ?thesis by (simp add: list_all_iff)
qed

text \<open>
  Claim C2 as the specification states it fails at its own example: the stream
  \<^verbatim>\<open>b"#212HELLOWORLD!"\<close> announces 12 bytes and holds 11 (\<^verbatim>\<open>HELLOWORLD!\<close> is 11 bytes long),
  so the loop meets the end of the stream and raises. The second fact is why the amended
  claim asks for the length digits in one segment: the read of the length is not repeated
  when it comes back short, and \<^verbatim>\<open>#21\<close> followed by \<^verbatim>\<open>1HELLOWORLD!\<close> is read as a block of
  length 1.
\<close>

theorem block_reader_example_counterexample:
  "scpi_recv_block [''#212HELLOWORLD!''] = (Inl ConnectionClosed, [])
   \<and> length ''HELLOWORLD!'' = 11
   \<and> scpi_recv_block [''#21'', ''1HELLOWORLD!''] = (Inr ''1'', [''HELLOWORLD!''])"
  by (simp add: block_eval)

text \<open>
  Claim C10. When the byte after \<^verbatim>\<open>#\<close> is the digit \<^verbatim>\<open>0\<close>, however the stream is cut
  into segments and whatever follows, the reader asks for zero bytes, gets \<^verbatim>\<open>b''\<close>, and
  \<^verbatim>\<open>int(b'')\<close> raises \<^verbatim>\<open>ValueError\<close>: neither data nor one of the two
  \<^verbatim>\<open>RuntimeError\<close>s that the reader raises itself.
\<close>

theorem block_reader_zero_digits:
  assumes "concat s = CHR ''#'' # CHR ''0'' # rest"
  shows "fst (scpi_recv_block s) = Inl IntValueError"
proof -
  from sock_read_1_append [OF assms, of "[]"]
  obtain s1 where r1: "sock_read 1 s = (''#'', s1)" and c1: "concat s1 = CHR ''0'' # rest"
    by auto
  from sock_read_1_append [OF c1, of "[]"]
  obtain s2 where r2: "sock_read 1 s1 = (''0'', s2)" by auto
  have i1: "py_int ''0'' = Some 0"
    by (simp add: py_int_def strip_with_def bytes_isspace_def isdigit_def decimal_value_def
        digit_val_def)
  have r3: "sock_read 0 s2 = ([], s2)" by (cases s2) auto
  have i2: "py_int [] = None" by (simp add: py_int_def strip_with_def)
  show ?thesis using r1 r2 i1 r3 i2 by (simp add: scpi_recv_block_def)
qed

theorem block_reader_zero_digits_witness:
  "concat [''#'', ''0ABC''] = CHR ''#'' # CHR ''0'' # ''ABC''
   \<and> fst (scpi_recv_block [''#'', ''0ABC'']) = Inl IntValueError"
  using block_reader_zero_digits [of "[''#'', ''0ABC'']" "''ABC''"] by simp

section \<open>Facts about the position parser\<close>

lemma finite_valueD: "finite_value v = Some x \<Longrightarrow> v = Some (Fin x)"
  by (auto simp: finite_value_def split: option.splits pyfloat.splits)

lemma whole_lt:
  assumes "whole x" "whole L" "x < L"
  shows "x \<le> L - 1"
proof -
  from assms(1) have x: "of_int \<lfloor>x\<rfloor> = x" unfolding whole_def .
  from assms(2) have L: "of_int \<lfloor>L\<rfloor> = L" unfolding whole_def .
  from assms(3) have "(of_int \<lfloor>x\<rfloor> :: rat) < of_int \<lfloor>L\<rfloor>" unfolding x L .
  then have "\<lfloor>x\<rfloor> < \<lfloor>L\<rfloor>" by (simp only: of_int_less_iff)
  then have "\<lfloor>x\<rfloor> \<le> \<lfloor>L\<rfloor> - 1" by simp
  then have "(of_int \<lfloor>x\<rfloor> :: rat) \<le> of_int (\<lfloor>L\<rfloor> - 1)" by (simp only: of_int_le_iff)
  then have "(of_int \<lfloor>x\<rfloor> :: rat) \<le> of_int \<lfloor>L\<rfloor> - 1" by simp
  then show ?thesis unfolding x L .
qed

lemma whole_numeral: "whole 60" "whole 90" "whole 180"
  by (simp_all add: whole_def)

text \<open>The roundings that bound a valid angle from above.\<close>

lemma dms_minutes_bound: "b64_round (59 / 60) \<le> 1"
  by code_simp

lemma dms_seconds_bound: "b64_round (1 / 60) \<le> 1"
  by code_simp

lemma dms_lat_bound:
  "b64_round (89 + b64_round (59 / 60)) \<le> 90"
  "b64_round (b64_round (89 + b64_round (59 / 60)) + b64_round (1 / 60)) \<le> 90"
  "b64_round 90 = 90"
  by code_simp+

lemma dms_lon_bound:
  "b64_round (179 + b64_round (59 / 60)) \<le> 180"
  "b64_round (b64_round (179 + b64_round (59 / 60)) + b64_round (1 / 60)) \<le> 180"
  "b64_round 180 = 180"
  by code_simp+

lemma b64_zero: "b64 0 = Fin 0"
  by (simp add: b64_def b64_round_def float_of_magnitude_def b64_overflow_def)

text \<open>The conversion of a valid angle of at most \<open>L\<close> degrees, for the two limits 90 and
  180: the three bounds are the roundings above.\<close>

lemma dms_to_degrees_range:
  assumes d: "whole d" "0 \<le> d" and m: "whole m" "0 \<le> m" "m < 60" and s: "0 \<le> s" "s < 60"
    and lim: "d < L \<or> (d = L \<and> m = 0 \<and> s = 0)" and L: "whole L" "0 \<le> L"
    and b1: "b64_round (L - 1 + b64_round (59 / 60)) \<le> L"
    and b2: "b64_round (b64_round (L - 1 + b64_round (59 / 60)) + b64_round (1 / 60)) \<le> L"
    and b3: "b64_round L = L" and b4: "L < 2 ^ 1024"
  shows "\<exists>x. dms_to_degrees (Fin d) (Fin m) (Fin s) = Fin x \<and> 0 \<le> x \<and> x \<le> L"
proof -
  let ?c1 = "b64_round (59 / 60)"
  let ?c2 = "b64_round (L - 1 + ?c1)"
  let ?c3 = "b64_round (1 / 60)"
  have big: "(1::rat) < 2 ^ 1024" by simp
  from lim show ?thesis
  proof
    assume dl: "d < L"
    have m59: "m \<le> 59" using whole_lt [OF m(1) whole_numeral(1) m(3)] by simp
    have dL: "d \<le> L - 1" using whole_lt [OF d(1) L(1) dl] .
    obtain x1 where x1: "b64 (m / 60) = Fin x1" "0 \<le> x1" "x1 \<le> ?c1"
      using b64_between [of "m / 60" "59 / 60"] m(2) m59 dms_minutes_bound big by auto
    have "d + x1 \<le> L - 1 + ?c1" using dL x1(3) by simp
    moreover have "0 \<le> d + x1" using d(2) x1(2) by simp
    moreover have "?c2 < 2 ^ 1024" using b1 b4 by linarith
    ultimately obtain x2 where x2: "b64 (d + x1) = Fin x2" "0 \<le> x2" "x2 \<le> ?c2"
      using b64_between [of "d + x1" "L - 1 + ?c1"] by auto
    obtain x3 where x3: "b64 (s / 3600) = Fin x3" "0 \<le> x3" "x3 \<le> ?c3"
      using b64_between [of "s / 3600" "1 / 60"] s dms_seconds_bound big by auto
    have "x2 + x3 \<le> ?c2 + ?c3" using x2(3) x3(3) by simp
    moreover have "0 \<le> x2 + x3" using x2(2) x3(2) by simp
    moreover have "b64_round (?c2 + ?c3) < 2 ^ 1024" using b2 b4 by linarith
    ultimately obtain x4 where x4: "b64 (x2 + x3) = Fin x4" "0 \<le> x4" "x4 \<le> b64_round (?c2 + ?c3)"
      using b64_between [of "x2 + x3" "?c2 + ?c3"] by auto
    have "dms_to_degrees (Fin d) (Fin m) (Fin s) = Fin x4"
      by (simp add: dms_to_degrees_def x1 x2 x3 x4)
    moreover have "x4 \<le> L" using x4(3) b2 by linarith
    ultimately show ?thesis using x4(2) by blast
  next
    assume "d = L \<and> m = 0 \<and> s = 0"
    then have e: "d = L" "m = 0" "s = 0" by simp_all
    have "b64 L = Fin L" using L(2) b3 b4 by (simp add: b64_nonneg)
    then have "dms_to_degrees (Fin d) (Fin m) (Fin s) = Fin L"
      by (simp add: dms_to_degrees_def e b64_zero)
    with L(2) show ?thesis by simp
  qed
qed

lemma fneg_range:
  assumes "v = Fin x" "0 \<le> x" "x \<le> L"
  shows "isfinite v \<and> isfinite (fneg v) \<and> - L \<le> float_val v \<and> float_val v \<le> L
         \<and> - L \<le> float_val (fneg v) \<and> float_val (fneg v) \<le> L"
  using assms by auto

lemma dms_angle_range:
  assumes "dms_angle L d m s" and L: "whole L" "0 \<le> L"
    and b1: "b64_round (L - 1 + b64_round (59 / 60)) \<le> L"
    and b2: "b64_round (b64_round (L - 1 + b64_round (59 / 60)) + b64_round (1 / 60)) \<le> L"
    and b3: "b64_round L = L" and b4: "L < 2 ^ 1024"
  shows "\<exists>dv mv sv x. py_float d = Some dv \<and> py_float m = Some mv \<and> py_float s = Some sv
           \<and> dms_to_degrees dv mv sv = Fin x \<and> 0 \<le> x \<and> x \<le> L"
proof -
  from assms(1) obtain dv mv sv where f: "finite_value (py_float d) = Some dv"
      "finite_value (py_float m) = Some mv" "finite_value (py_float s) = Some sv"
    and v: "whole dv" "whole mv" "0 \<le> dv" "0 \<le> mv" "mv < 60" "0 \<le> sv" "sv < 60"
      "dv < L \<or> (dv = L \<and> mv = 0 \<and> sv = 0)"
    by (auto simp: dms_angle_def split: option.splits)
  from f have p: "py_float d = Some (Fin dv)" "py_float m = Some (Fin mv)"
      "py_float s = Some (Fin sv)"
    by (simp_all add: finite_valueD)
  from dms_to_degrees_range [OF v(1,3,2,4,5,6,7,8) L b1 b2 b3 b4] p show ?thesis by blast
qed


section \<open>The position parser: claims\<close>

text \<open>
  Claim C3. For every valid position response (\<open>valid_dms_response\<close>), \<^verbatim>\<open>parse_gps_data\<close>
  returns a latitude and a longitude, both finite, the latitude between -90 and 90 and
  the longitude between -180 and 180, after the hemisphere letters have been applied. For
  the example response of the source the result is 48.12786944... and 11.61317222..., which
  is 48.1279 and 11.6132 to four decimals.
\<close>

theorem parse_gps_data_range:
  assumes "valid_dms_response s"
  shows "(\<exists>lat lon. parse_gps_data s = (Some lat, Some lon) \<and> isfinite lat \<and> isfinite lon
            \<and> - 90 \<le> float_val lat \<and> float_val lat \<le> 90
            \<and> - 180 \<le> float_val lon \<and> float_val lon \<le> 180)
         \<and> parse_gps_data
              ''GPS,1,1239090583,220,4,N,48,7,40.33,E,11,36,47.42,2009,4,7,7,49,42,0.00,18.89,0.0,554''
            = (Some (Fin (3386697732752123 / 70368744177664)),
               Some (Fin (3268817380786837 / 281474976710656)))
         \<and> \<bar>3386697732752123 / 70368744177664 - 48.1279\<bar> < (0.00005 :: rat)
         \<and> \<bar>3268817380786837 / 281474976710656 - 11.6132\<bar> < (0.00005 :: rat)"
proof -
  define parts where "parts = map str_strip (split_on (CHR '','') s)"
  from assms have ne: "s \<noteq> []" and vp: "valid_dms_parts parts"
    by (simp_all add: valid_dms_response_def parts_def)
  from vp obtain i where i: "find_first (\<lambda>p. p \<in> set [''N'', ''S'']) parts = Some i"
    and li: "i + 3 < length parts"
    and a1: "dms_angle 90 (parts ! (i + 1)) (parts ! (i + 2)) (parts ! (i + 3))"
    and rest: "case find_first (\<lambda>p. p \<in> set [''E'', ''W'']) (drop (i + 4) parts) of
                    None \<Rightarrow> False
                  | Some j \<Rightarrow>
                      j + (i + 4) + 3 < length parts
                      \<and> dms_angle 180 (parts ! (j + (i + 4) + 1)) (parts ! (j + (i + 4) + 2))
                            (parts ! (j + (i + 4) + 3))"
    by (auto simp: valid_dms_parts_def split: option.splits)
  from rest obtain j where j: "find_first (\<lambda>p. p \<in> set [''E'', ''W'']) (drop (i + 4) parts) = Some j"
    and lj: "j + (i + 4) + 3 < length parts"
    and a2: "dms_angle 180 (parts ! (j + (i + 4) + 1)) (parts ! (j + (i + 4) + 2))
                            (parts ! (j + (i + 4) + 3))"
    by (auto split: option.splits)
  have "\<exists>dv mv sv x. py_float (parts ! (i + 1)) = Some dv \<and> py_float (parts ! (i + 2)) = Some mv
          \<and> py_float (parts ! (i + 3)) = Some sv
          \<and> dms_to_degrees dv mv sv = Fin x \<and> 0 \<le> x \<and> x \<le> 90"
    using dms_angle_range [OF a1] whole_numeral dms_lat_bound by simp
  then obtain dv mv sv x where lat: "py_float (parts ! (i + 1)) = Some dv"
      "py_float (parts ! (i + 2)) = Some mv" "py_float (parts ! (i + 3)) = Some sv"
      "dms_to_degrees dv mv sv = Fin x" "0 \<le> x" "x \<le> 90" by blast
  have "\<exists>dv mv sv x. py_float (parts ! (j + (i + 4) + 1)) = Some dv
          \<and> py_float (parts ! (j + (i + 4) + 2)) = Some mv
          \<and> py_float (parts ! (j + (i + 4) + 3)) = Some sv
          \<and> dms_to_degrees dv mv sv = Fin x \<and> 0 \<le> x \<and> x \<le> 180"
    using dms_angle_range [OF a2] whole_numeral dms_lon_bound by simp
  then obtain dv' mv' sv' y where lon: "py_float (parts ! (j + (i + 4) + 1)) = Some dv'"
      "py_float (parts ! (j + (i + 4) + 2)) = Some mv'" "py_float (parts ! (j + (i + 4) + 3)) = Some sv'"
      "dms_to_degrees dv' mv' sv' = Fin y" "0 \<le> y" "y \<le> 180" by blast
  have res: "parse_gps_data s =
      (Some (if parts ! i = ''S'' then fneg (Fin x) else Fin x),
       Some (if parts ! (j + (i + 4)) = ''W'' then fneg (Fin y) else Fin y))"
    using ne i li j lj lat lon
    by (simp add: parse_gps_data_def gps_from_parts_def Let_def parts_def [symmetric])
  have general: "\<exists>lat lon. parse_gps_data s = (Some lat, Some lon) \<and> isfinite lat \<and> isfinite lon
            \<and> - 90 \<le> float_val lat \<and> float_val lat \<le> 90
            \<and> - 180 \<le> float_val lon \<and> float_val lon \<le> 180"
    unfolding res using fneg_range [OF refl lat(5,6)] fneg_range [OF refl lon(5,6)]
    by (intro exI conjI) (rule refl, auto)
  have example: "parse_gps_data
              ''GPS,1,1239090583,220,4,N,48,7,40.33,E,11,36,47.42,2009,4,7,7,49,42,0.00,18.89,0.0,554''
            = (Some (Fin (3386697732752123 / 70368744177664)),
               Some (Fin (3268817380786837 / 281474976710656)))"
    by code_simp
  have near: "\<bar>3386697732752123 / 70368744177664 - 48.1279\<bar> < (0.00005 :: rat)"
      "\<bar>3268817380786837 / 281474976710656 - 11.6132\<bar> < (0.00005 :: rat)"
    by simp_all
  from general example near show ?thesis by blast
qed

theorem parse_gps_data_range_witness:
  "valid_dms_response ''GPS,1,4,S,33,51,54.5,W,151,12,36''
   \<and> (\<exists>lat lon. parse_gps_data ''GPS,1,4,S,33,51,54.5,W,151,12,36'' = (Some lat, Some lon)
         \<and> isfinite lat \<and> isfinite lon
         \<and> - 90 \<le> float_val lat \<and> float_val lat \<le> 90
         \<and> - 180 \<le> float_val lon \<and> float_val lon \<le> 180)"
proof -
  have v: "valid_dms_response ''GPS,1,4,S,33,51,54.5,W,151,12,36''" by code_simp
  from parse_gps_data_range [OF v] v show ?thesis by blast
qed

text \<open>
  Claim C8. \<^verbatim>\<open>parse_gps_data\<close> returns \<^verbatim>\<open>(None, None)\<close> exactly for the empty text and
  for the defective responses (\<open>gps_defect\<close>: no \<^verbatim>\<open>N\<close>/\<^verbatim>\<open>S\<close> piece, no \<^verbatim>\<open>E\<close>/\<^verbatim>\<open>W\<close> piece
  after the three pieces of the latitude, or one of the three pieces after a marker missing
  or not a number), and it never returns one coordinate without the other.
\<close>

theorem parse_gps_data_none:
  "(parse_gps_data s = (None, None)) = (s = [] \<or> gps_defect s)
   \<and> ((fst (parse_gps_data s) = None) = (snd (parse_gps_data s) = None))"
proof -
  define parts where "parts = map str_strip (split_on (CHR '','') s)"
  have a: "(gps_from_parts parts = (None, None)) = gps_defect_parts parts"
    by (auto simp: gps_from_parts_def gps_defect_parts_def missing_or_non_numeric_def Let_def
        split: option.splits)
  have b: "(fst (gps_from_parts parts) = None) = (snd (gps_from_parts parts) = None)"
    by (auto simp: gps_from_parts_def Let_def split: option.splits)
  show ?thesis
    using a b by (simp add: parse_gps_data_def gps_defect_def parts_def)
qed

theorem parse_gps_data_none_witness:
  "gps_defect ''GPS,1,N,48,7,x,E,11,36,47.42''
   \<and> parse_gps_data ''GPS,1,N,48,7,x,E,11,36,47.42'' = (None, None)
   \<and> gps_defect ''GPS,1,N,48,7,40.33,11,36,47.42''
   \<and> parse_gps_data ''GPS,1,N,48,7,40.33,11,36,47.42'' = (None, None)
   \<and> gps_defect ''GPS,1,N,48,7,40.33,E,11,36''
   \<and> parse_gps_data ''GPS,1,N,48,7,40.33,E,11,36'' = (None, None)"
proof -
  have d1: "gps_defect ''GPS,1,N,48,7,x,E,11,36,47.42''" by code_simp
  have d2: "gps_defect ''GPS,1,N,48,7,40.33,11,36,47.42''" by code_simp
  have d3: "gps_defect ''GPS,1,N,48,7,40.33,E,11,36''" by code_simp
  from parse_gps_data_none [of "''GPS,1,N,48,7,x,E,11,36,47.42''"]
       parse_gps_data_none [of "''GPS,1,N,48,7,40.33,11,36,47.42''"]
       parse_gps_data_none [of "''GPS,1,N,48,7,40.33,E,11,36''"] d1 d2 d3
  show ?thesis by blast
qed

section \<open>The cadence: claims\<close>

lemma datagram_received_positive:
  "float_gt0 p \<Longrightarrow> float_gt0 (datagram_received wide p data)"
  by (simp add: datagram_received_def split: option.splits)

lemma datagrams_positive:
  "float_gt0 p \<Longrightarrow> float_gt0 (foldl (datagram_received wide) p datagrams)"
  by (induction datagrams arbitrary: p) (simp_all add: datagram_received_positive)

lemma float_sign_cases: "float_le0 v \<or> float_gt0 v \<or> v = NaN"
  by (cases v) auto

lemma initial_periodo_positive:
  "float_gt0 (initial_periodo env) \<or> initial_periodo env = NaN"
  using float_sign_cases by (auto simp: initial_periodo_def split: option.splits)

lemma payload_float_examples:
  "payload_float wide ''2.5'' = Some (Fin (5 / 2))"
  "payload_float wide ''0'' = Some (Fin 0)"
  "payload_float wide ''-3'' = Some (Fin (- 3))"
  "payload_float wide ''nan'' = Some NaN"
  "payload_float wide ''fast'' = None"
proof -
  have e: "py_float (str_strip ''2.5'') = Some (Fin (5 / 2))"
      "py_float (str_strip ''0'') = Some (Fin 0)"
      "py_float (str_strip ''-3'') = Some (Fin (- 3))"
      "py_float (str_strip ''nan'') = Some NaN"
      "py_float (str_strip ''fast'') = None"
    by code_simp+
  show "payload_float wide ''2.5'' = Some (Fin (5 / 2))"
    "payload_float wide ''0'' = Some (Fin 0)"
    "payload_float wide ''-3'' = Some (Fin (- 3))"
    "payload_float wide ''nan'' = Some NaN"
    "payload_float wide ''fast'' = None"
    by (simp_all add: payload_float_def e)
qed


text \<open>
  The handler. The payload of a datagram is read as
  \<^verbatim>\<open>float(data.decode('utf-8').strip())\<close>. If that gives a float \<open>v\<close> with \<^verbatim>\<open>v > 0\<close>, the
  cadence becomes \<open>v\<close>; if it gives a float that is not \<^verbatim>\<open>> 0\<close> (a non-positive one, or a
  NaN), or raises, the cadence stays what it was. So a cadence that is strictly positive
  stays strictly positive under every sequence of datagrams. The start value, read from
  \<^verbatim>\<open>SAMPLE_PERIOD\<close>, is strictly positive or a NaN; hence the cadence is strictly
  positive at all times unless it started as a NaN. The payloads \<^verbatim>\<open>2.5\<close>, \<^verbatim>\<open>0\<close> and
  \<^verbatim>\<open>-3\<close> are the examples of the specification.
\<close>

theorem datagram_received_cadence:
  "(payload_float wide data = Some v \<and> float_gt0 v \<longrightarrow> datagram_received wide p data = v)
   \<and> (payload_float wide data = Some v \<and> \<not> float_gt0 v \<longrightarrow> datagram_received wide p data = p)
   \<and> (payload_float wide data = None \<longrightarrow> datagram_received wide p data = p)
   \<and> (float_gt0 p \<longrightarrow> float_gt0 (foldl (datagram_received wide) p datagrams))
   \<and> (initial_periodo env \<noteq> NaN
        \<longrightarrow> float_gt0 (foldl (datagram_received wide) (initial_periodo env) datagrams))
   \<and> datagram_received wide p ''2.5'' = Fin (5 / 2)
   \<and> datagram_received wide p ''0'' = p
   \<and> datagram_received wide p ''-3'' = p"
proof -
  have step: "(payload_float wide data = Some v \<and> float_gt0 v \<longrightarrow> datagram_received wide p data = v)
      \<and> (payload_float wide data = Some v \<and> \<not> float_gt0 v \<longrightarrow> datagram_received wide p data = p)
      \<and> (payload_float wide data = None \<longrightarrow> datagram_received wide p data = p)"
    by (simp add: datagram_received_def)
  have inv: "float_gt0 p \<longrightarrow> float_gt0 (foldl (datagram_received wide) p datagrams)"
    by (simp add: datagrams_positive)
  have start: "initial_periodo env \<noteq> NaN
      \<longrightarrow> float_gt0 (foldl (datagram_received wide) (initial_periodo env) datagrams)"
    using initial_periodo_positive [of env] by (auto simp: datagrams_positive)
  have ex: "datagram_received wide p ''2.5'' = Fin (5 / 2)"
      "datagram_received wide p ''0'' = p" "datagram_received wide p ''-3'' = p"
    by (simp_all add: datagram_received_def payload_float_examples)
  from step inv start ex show ?thesis by blast
qed

theorem datagram_received_cadence_witness:
  "payload_float (\<lambda>d. None) ''2.5'' = Some (Fin (5 / 2)) \<and> float_gt0 (Fin (5 / 2))
   \<and> datagram_received (\<lambda>d. None) (Fin 5) ''2.5'' = Fin (5 / 2)
   \<and> payload_float (\<lambda>d. None) ''-3'' = Some (Fin (- 3)) \<and> \<not> float_gt0 (Fin (- 3))
   \<and> datagram_received (\<lambda>d. None) (Fin 5) ''-3'' = Fin 5
   \<and> payload_float (\<lambda>d. None) ''fast'' = None
   \<and> datagram_received (\<lambda>d. None) (Fin 5) ''fast'' = Fin 5
   \<and> float_gt0 (Fin 5)
   \<and> float_gt0 (foldl (datagram_received (\<lambda>d. None)) (Fin 5) [''2.5'', ''0'', ''-3''])
   \<and> initial_periodo None \<noteq> NaN
   \<and> float_gt0 (foldl (datagram_received (\<lambda>d. None)) (initial_periodo None) [''0'', ''-3''])"
proof -
  note ex = payload_float_examples [of "\<lambda>d. None"]
  have i: "initial_periodo None = Fin 5"
  proof -
    have "py_float ''5'' = Some (Fin 5)" by code_simp
    then show ?thesis by (simp add: initial_periodo_def)
  qed
  have a: "datagram_received (\<lambda>d. None) (Fin 5) ''2.5'' = Fin (5 / 2)"
    using datagram_received_cadence [of "\<lambda>d. None" "''2.5''" "Fin (5 / 2)" "Fin 5" "[]" None] ex
    by simp
  have b: "datagram_received (\<lambda>d. None) (Fin 5) ''-3'' = Fin 5"
    using datagram_received_cadence [of "\<lambda>d. None" "''-3''" "Fin (- 3)" "Fin 5" "[]" None] ex
    by simp
  have c: "datagram_received (\<lambda>d. None) (Fin 5) ''fast'' = Fin 5"
    using datagram_received_cadence [of "\<lambda>d. None" "''fast''" NaN "Fin 5" "[]" None] ex
    by simp
  have p: "float_gt0 (Fin 5)" by simp
  have n: "initial_periodo None \<noteq> NaN" by (simp add: i)
  have d: "float_gt0 (foldl (datagram_received (\<lambda>d. None)) (Fin 5) [''2.5'', ''0'', ''-3''])"
  proof -
    from datagram_received_cadence
      [of "\<lambda>d. None" "''0''" NaN "Fin 5" "[''2.5'', ''0'', ''-3'']" None]
    have "float_gt0 (Fin 5)
      \<longrightarrow> float_gt0 (foldl (datagram_received (\<lambda>d. None)) (Fin 5) [''2.5'', ''0'', ''-3''])"
      by blast
    with p show ?thesis by blast
  qed
  have e: "float_gt0 (foldl (datagram_received (\<lambda>d. None)) (initial_periodo None) [''0'', ''-3''])"
  proof -
    from datagram_received_cadence
      [of "\<lambda>d. None" "''0''" NaN "Fin 5" "[''0'', ''-3'']" None]
    have "initial_periodo None \<noteq> NaN
      \<longrightarrow> float_gt0 (foldl (datagram_received (\<lambda>d. None)) (initial_periodo None) [''0'', ''-3''])"
      by blast
    with n show ?thesis by blast
  qed
  from ex a b c d e p n show ?thesis by (simp del: foldl.simps)
qed


section \<open>The frequency change: claims\<close>

text \<open>The pattern of the validation matches the non-negative decimal numerals: digits,
  optionally followed by a point and digits.\<close>

lemma re_fullmatch_number_iff:
  "re_fullmatch_number s \<longleftrightarrow>
     (\<exists>ip. ip \<noteq> [] \<and> list_all isdigit ip
        \<and> (s = ip \<or> (\<exists>fp. fp \<noteq> [] \<and> list_all isdigit fp \<and> s = ip @ ''.'' @ fp)))"
proof
  assume m: "re_fullmatch_number s"
  let ?ip = "takeWhile isdigit s"
  let ?r = "dropWhile isdigit s"
  have s: "s = ?ip @ ?r" by simp
  have ip: "?ip \<noteq> []" "list_all isdigit ?ip"
    using m by (auto simp: re_fullmatch_number_def Let_def list_all_iff dest: set_takeWhileD)
  show "\<exists>ip. ip \<noteq> [] \<and> list_all isdigit ip
        \<and> (s = ip \<or> (\<exists>fp. fp \<noteq> [] \<and> list_all isdigit fp \<and> s = ip @ ''.'' @ fp))"
  proof (cases ?r)
    case Nil
    with s have "s = ?ip" by simp
    with ip show ?thesis by metis
  next
    case (Cons c fs)
    with m have c: "c = CHR ''.''" and fs: "fs \<noteq> []" "list_all isdigit fs"
      by (simp_all add: re_fullmatch_number_def Let_def)
    from s Cons c have "s = ?ip @ ''.'' @ fs" by simp
    with ip fs show ?thesis by metis
  qed
next
  assume "\<exists>ip. ip \<noteq> [] \<and> list_all isdigit ip
        \<and> (s = ip \<or> (\<exists>fp. fp \<noteq> [] \<and> list_all isdigit fp \<and> s = ip @ ''.'' @ fp))"
  then obtain ip where ip: "ip \<noteq> []" "list_all isdigit ip"
    and s: "s = ip \<or> (\<exists>fp. fp \<noteq> [] \<and> list_all isdigit fp \<and> s = ip @ ''.'' @ fp)"
    by blast
  have all: "\<forall>c\<in>set ip. isdigit c" using ip by (simp add: list_all_iff)
  from s show "re_fullmatch_number s"
  proof
    assume e: "s = ip"
    have t: "takeWhile isdigit ip = ip" "dropWhile isdigit ip = []" using all by simp_all
    show ?thesis using ip by (simp add: re_fullmatch_number_def Let_def e t)
  next
    assume "\<exists>fp. fp \<noteq> [] \<and> list_all isdigit fp \<and> s = ip @ ''.'' @ fp"
    then obtain fp where fp: "fp \<noteq> []" "list_all isdigit fp" and s': "s = ip @ ''.'' @ fp"
      by blast
    have nd: "\<not> isdigit (CHR ''.'')" using isdigit_not_special by blast
    have t: "takeWhile isdigit s = ip" "dropWhile isdigit s = ''.'' @ fp"
      using all nd by (simp_all add: s' takeWhile_append2 dropWhile_append2)
    show ?thesis using ip fp by (simp add: re_fullmatch_number_def Let_def t)
  qed
qed

text \<open>
  The validation. The operation raises \<^verbatim>\<open>ValueError\<close> exactly when the input, stripped
  and with its commas turned into points, does not match; it has done nothing to the
  network then. On an input that matches it connects, sends the three lines and reads one
  line; it returns that line, decoded and stripped, or \<^verbatim>\<open>OK\<close> when that is empty.
\<close>

lemma enviar_comando_frecuencia_validation:
  "(fst (enviar_comando_frecuencia freq_mhz env) = Inl ValueError
      \<longleftrightarrow> \<not> re_fullmatch_number
              (map (\<lambda>c. if c = CHR '','' then CHR ''.'' else c) (str_strip freq_mhz)))
   \<and> (fst (enviar_comando_frecuencia freq_mhz env) = Inl ValueError
      \<longleftrightarrow> enviar_comando_frecuencia freq_mhz env = (Inl ValueError, []))"
  by (auto simp: enviar_comando_frecuencia_def Let_def
      split: instrument.splits readline_outcome.splits)

lemma enviar_comando_frecuencia_echo:
  assumes "re_fullmatch_number (map (\<lambda>c. if c = CHR '','' then CHR ''.'' else c) (str_strip freq_mhz))"
  shows "fst (enviar_comando_frecuencia freq_mhz (Connected (Line txt)))
           = Inr (if str_strip txt = [] then ''OK'' else str_strip txt)"
  using assms by (simp add: enviar_comando_frecuencia_def Let_def)

lemma enviar_comando_frecuencia_timeout:
  assumes "re_fullmatch_number (map (\<lambda>c. if c = CHR '','' then CHR ''.'' else c) (str_strip freq_mhz))"
  shows "fst (enviar_comando_frecuencia freq_mhz (Connected TimedOut)) = Inl TimeoutError"
  using assms by (simp add: enviar_comando_frecuencia_def Let_def)


section \<open>The loops and the removal of the log\<close>

text \<open>A removal that the test at the head of a pass sees ends the loop, and \<^verbatim>\<open>main\<close>
  returns.\<close>

lemma pr100_loop_removed:
  "\<not> p_stop t \<Longrightarrow> p_removed t \<Longrightarrow> pr100_loop (t # ts) f = (None, Finished)"
  by simp

lemma sweep_loop_removed:
  "\<not> s_stop t \<Longrightarrow> s_removed t \<Longrightarrow> sweep_loop (t # ts) f = (None, Finished)"
  by simp

text \<open>In the wait for the position fix it ends the wait only.\<close>

lemma gps_wait_removed:
  "\<not> w_stop t \<Longrightarrow> w_removed t \<Longrightarrow> gps_wait (t # ts) f = Some (None, False, None)"
  by simp






end
